theory Spec2Isabelle
  imports Main "HOL-Library.Word" "HOL-Library.Char_ord" "HOL-Library.List_Lexorder"
begin

section \<open>Strings and paths\<close>

text \<open>\<^verbatim>\<open>strings.Join\<close>.\<close>

fun joinStrings :: "string list \<Rightarrow> string \<Rightarrow> string" where
  "joinStrings [] sep = []"
| "joinStrings [x] sep = x"
| "joinStrings (x # y # ys) sep = x @ sep @ joinStrings (y # ys) sep"

text \<open>
  \<^verbatim>\<open>filepath.Join\<close> on a system whose separator is the slash. It joins its elements,
  from the first non-empty one on, with slashes and cleans the result as
  \<^verbatim>\<open>filepath.Clean\<close> does: the path is cut at its slashes, empty elements and \<^verbatim>\<open>.\<close>
  are dropped, a \<^verbatim>\<open>..\<close> takes the element before it away (at the start of a rooted
  path it is dropped, at the start of another path it stays), and the empty result
  is \<^verbatim>\<open>.\<close>.
\<close>

fun splitOn :: "char \<Rightarrow> string \<Rightarrow> string list" where
  "splitOn c [] = [[]]"
| "splitOn c (x # xs) =
     (if x = c then [] # splitOn c xs
      else (case splitOn c xs of [] \<Rightarrow> [[x]] | y # ys \<Rightarrow> (x # y) # ys))"

definition cleanStep :: "bool \<Rightarrow> string list \<Rightarrow> string \<Rightarrow> string list" where
  "cleanStep rooted out elem =
     (if elem = [] \<or> elem = ''.'' then out
      else if elem = ''..'' then
        (if out \<noteq> [] \<and> last out \<noteq> ''..'' then butlast out
         else if rooted then out
         else out @ [''..''])
      else out @ [elem])"

definition Clean :: "string \<Rightarrow> string" where
  "Clean path =
     (if path = [] then ''.''
      else
        (let rooted = (hd path = CHR ''/'');
             out = foldl (cleanStep rooted) [] (splitOn CHR ''/'' path);
             cleaned = (if rooted then ''/'' else []) @ joinStrings out ''/''
         in if cleaned = [] then ''.'' else cleaned))"

definition joinPath :: "string \<Rightarrow> string \<Rightarrow> string" where
  "joinPath d name =
     (if d \<noteq> [] then Clean (d @ ''/'' @ name)
      else if name \<noteq> [] then Clean name
      else [])"

section \<open>The cache package: data\<close>

text \<open>
  The Go structs \<^verbatim>\<open>Metadata\<close>, \<^verbatim>\<open>CacheEntry\<close> and \<^verbatim>\<open>Cache\<close> become records.
  \<^verbatim>\<open>int64\<close> is a 64-bit word read in two's complement. A \<^verbatim>\<open>time.Time\<close> is an integer
  count of nanoseconds and a \<^verbatim>\<open>time.Duration\<close> an integer number of nanoseconds;
  \<^verbatim>\<open>time.Since\<close> is the difference of two such counts (Go cuts it off at the ends of
  the 64-bit range, 292 years away, which the model leaves out). A reading of the clock
  (\<^verbatim>\<open>time.Now()\<close>) is an explicit argument of the operation that takes it. A Go
  \<^verbatim>\<open>map[string]string\<close> is a partial function; reading a missing name gives the empty
  string, as in Go.
\<close>

type_synonym int64 = "64 word"
type_synonym bytes = "8 word list"

record Metadata =
  CreatedAt :: int
  LastAccessedAt :: int
  Headers :: "string \<rightharpoonup> string"
  StatusCode :: int
  Size :: int64

record CacheEntry =
  Key :: string
  FilePath :: string
  Metadata :: Metadata

text \<open>
  What a file of the cache directory holds: bytes, or one of the two JSON documents
  the package writes, kept as the value that was marshalled. An index document has an
  \<^verbatim>\<open>entries\<close> member, which is \<open>None\<close> when it is missing or \<^verbatim>\<open>null\<close> (it decodes to
  the nil map) and otherwise a map whose values are entries or \<^verbatim>\<open>null\<close> (\<open>None\<close>, which
  decodes to a nil pointer), and a recency list. \<open>Unreadable\<close> is a path that exists
  and that \<^verbatim>\<open>os.ReadFile\<close> cannot read.
\<close>

datatype content =
    Bytes bytes
  | MetaJSON Metadata
  | IndexJSON "(string \<rightharpoonup> CacheEntry option) option" "string list"
  | Unreadable

datatype level = Info | Warn | Error

datatype error =
    CreateDirFailed
  | WriteCacheFileFailed
  | WriteMetadataFailed
  | WriteIndexFailed
  | EntryNotFound
  | ReadCacheFileFailed
  | FileNotExist
  | ReadFault
  | IndexMalformed
  | BodyNotAllowed
  | WriteRefused

text \<open>
  A call either returns or panics. A panic inside a method of the cache leaves the
  lock released (the unlock is deferred) and the store as it stood; inside the
  handler it ends the request without a response.
\<close>

datatype 'a run = Returns 'a | Panics

text \<open>
  The struct \<^verbatim>\<open>Cache\<close> (without its lock: every method runs under it from start to end,
  so the methods are modelled as atomic steps), together with the three parts of the
  world its methods reach: the files below the cache directory, the paths that can be
  written (a write to any other path fails), and the lines the package has logged.
  \<open>nilIndex\<close> says that the field \<^verbatim>\<open>index\<close> is the nil map: it reads as the empty map,
  and an assignment to it panics.
\<close>

record Cache =
  dir :: string
  ttl :: int
  maxBytes :: int64
  index :: "string \<rightharpoonup> CacheEntry"
  nilIndex :: bool
  accessList :: "string list"
  currentBytes :: int64
  files :: "string \<rightharpoonup> content"
  writable :: "string \<Rightarrow> bool"
  logged :: "(level \<times> string) list"

section \<open>The cache package: operations\<close>

definition hdr :: "(string \<rightharpoonup> string) \<Rightarrow> string \<Rightarrow> string" where
  "hdr m name = (case m name of None \<Rightarrow> [] | Some v \<Rightarrow> v)"

definition ReadFile :: "Cache \<Rightarrow> string \<Rightarrow> error + content" where
  "ReadFile c p =
     (case files c p of
        None \<Rightarrow> Inl FileNotExist
      | Some Unreadable \<Rightarrow> Inl ReadFault
      | Some f \<Rightarrow> Inr f)"

definition WriteFile :: "Cache \<Rightarrow> string \<Rightarrow> content \<Rightarrow> Cache option" where
  "WriteFile c p f = (if writable c p then Some (c\<lparr>files := (files c)(p \<mapsto> f)\<rparr>) else None)"

text \<open>\<^verbatim>\<open>os.Remove\<close>, whose error the package discards; the removal is taken to succeed.\<close>

definition Remove :: "Cache \<Rightarrow> string \<Rightarrow> Cache" where
  "Remove c p = c\<lparr>files := (files c)(p := None)\<rparr>"

definition logLine :: "level \<Rightarrow> string \<Rightarrow> Cache \<Rightarrow> Cache" where
  "logLine l msg c = c\<lparr>logged := logged c @ [(l, msg)]\<rparr>"

definition Get :: "Cache \<Rightarrow> int \<Rightarrow> string \<Rightarrow> (CacheEntry option \<times> bool) \<times> Cache" where
  "Get c now key =
     (case index c key of
        None \<Rightarrow> ((None, False), c)
      | Some entry \<Rightarrow>
          if now - CreatedAt (Metadata entry) > ttl c then ((Some entry, False), c)
          else ((Some entry, True), c))"

text \<open>
  \<^verbatim>\<open>updateAccessList\<close>: the loop drops the first occurrence of the key and stops
  (\<open>remove1\<close>), then the key is appended.
\<close>

definition updateAccessList :: "Cache \<Rightarrow> string \<Rightarrow> Cache" where
  "updateAccessList c key = c\<lparr>accessList := remove1 key (accessList c) @ [key]\<rparr>"

text \<open>
  One turn of the loop of \<^verbatim>\<open>evictIfNeeded\<close>, entered with a non-empty recency list:
  the head is taken off the list; when the index has no entry for it the turn ends
  there (\<^verbatim>\<open>continue\<close>), otherwise both files are removed, the size is subtracted,
  the key leaves the index and the eviction is logged.
\<close>

definition evictHead :: "Cache \<Rightarrow> Cache" where
  "evictHead c =
     (let lruKey = hd (accessList c);
          c1 = c\<lparr>accessList := tl (accessList c)\<rparr>
      in case index c1 lruKey of
           None \<Rightarrow> c1
         | Some entry \<Rightarrow>
             (let c2 = Remove c1 (FilePath entry);
                  c3 = Remove c2 (FilePath entry @ ''.meta'');
                  c4 = c3\<lparr>currentBytes := currentBytes c3 - Size (Metadata entry)\<rparr>;
                  c5 = c4\<lparr>index := (index c4)(lruKey := None)\<rparr>
              in logLine Info ''evicted cache entry'' c5))"

definition overCeiling :: "Cache \<Rightarrow> bool" where
  "overCeiling c \<longleftrightarrow> maxBytes c <s currentBytes c \<and> accessList c \<noteq> []"

function evictIfNeeded :: "Cache \<Rightarrow> Cache" where
  "evictIfNeeded c = (if overCeiling c then evictIfNeeded (evictHead c) else c)"
  by pat_completeness auto
termination
  by (relation "measure (\<lambda>c. length (accessList c))")
     (auto simp: overCeiling_def evictHead_def Remove_def logLine_def Let_def
           split: option.splits)

definition saveMetadata :: "Cache \<Rightarrow> string \<Rightarrow> Metadata \<Rightarrow> error option \<times> Cache" where
  "saveMetadata c key metadata =
     (let metaPath = joinPath (dir c) (key @ ''.meta'')
      in case WriteFile c metaPath (MetaJSON metadata) of
           None \<Rightarrow> (Some WriteMetadataFailed, c)
         | Some c' \<Rightarrow> (None, c'))"

definition saveIndex :: "Cache \<Rightarrow> error option \<times> Cache" where
  "saveIndex c =
     (let indexPath = joinPath (dir c) ''index.json''
      in case WriteFile c indexPath
                (IndexJSON (if nilIndex c then None else Some (\<lambda>k. map_option Some (index c k)))
                   (accessList c)) of
           None \<Rightarrow> (Some WriteIndexFailed, c)
         | Some c' \<Rightarrow> (None, c'))"

text \<open>
  \<^verbatim>\<open>Set\<close>. The two early returns leave the struct as it was; the second one leaves the
  artifact file written. The assignment to the index panics when the index is the nil
  map, after both files have been written. \<^verbatim>\<open>json.Marshal\<close> of a metadata record is
  taken to succeed.
\<close>

definition Set :: "Cache \<Rightarrow> string \<Rightarrow> bytes \<Rightarrow> Metadata \<Rightarrow> error option run \<times> Cache" where
  "Set c key data metadata0 =
     (let filePath = joinPath (dir c) key;
          metaPath = joinPath (dir c) (key @ ''.meta'')
      in case WriteFile c filePath (Bytes data) of
           None \<Rightarrow> (Returns (Some WriteCacheFileFailed), c)
         | Some c1 \<Rightarrow>
             (let metadata = metadata0\<lparr>Size := of_nat (length data)\<rparr>
              in case WriteFile c1 metaPath (MetaJSON metadata) of
                   None \<Rightarrow> (Returns (Some WriteMetadataFailed), c1)
                 | Some c2 \<Rightarrow>
                     (let entry = \<lparr>Key = key, FilePath = filePath, Metadata = metadata\<rparr>;
                          c3 = (case index c2 key of
                                  None \<Rightarrow> c2
                                | Some existing \<Rightarrow>
                                    c2\<lparr>currentBytes := currentBytes c2 - Size (Metadata existing)\<rparr>)
                      in if nilIndex c3 then (Panics, c3)
                         else
                           (let c4 = c3\<lparr>index := (index c3)(key \<mapsto> entry)\<rparr>;
                                c5 = c4\<lparr>currentBytes := currentBytes c4 + Size metadata\<rparr>;
                                c6 = updateAccessList c5 key;
                                c7 = evictIfNeeded c6
                            in case saveIndex c7 of
                                 (None, c8) \<Rightarrow> (Returns None, c8)
                               | (Some err, c8) \<Rightarrow>
                                   (Returns None, logLine Error ''failed to save cache index'' c8)))))"

text \<open>
  \<^verbatim>\<open>ReadData\<close>. The entry is reached through a pointer, so the new access time is
  written into the indexed entry itself.
\<close>

definition ReadData :: "Cache \<Rightarrow> int \<Rightarrow> string \<Rightarrow> (error + content) \<times> Cache" where
  "ReadData c now key =
     (case index c key of
        None \<Rightarrow> (Inl EntryNotFound, c)
      | Some entry0 \<Rightarrow>
          (let entry = entry0\<lparr>Metadata := (Metadata entry0)\<lparr>LastAccessedAt := now\<rparr>\<rparr>;
               c1 = c\<lparr>index := (index c)(key \<mapsto> entry)\<rparr>;
               c2 = updateAccessList c1 key;
               c3 = (case saveMetadata c2 key (Metadata entry) of
                       (None, c') \<Rightarrow> c'
                     | (Some err, c') \<Rightarrow> logLine Warn ''failed to update metadata'' c')
           in case ReadFile c3 (FilePath entry) of
                Inl err \<Rightarrow> (Inl ReadCacheFileFailed, c3)
              | Inr data \<Rightarrow> (Inr data, c3)))"

definition UpdateMetadata :: "Cache \<Rightarrow> string \<Rightarrow> Metadata \<Rightarrow> error option \<times> Cache" where
  "UpdateMetadata c key metadata =
     (case index c key of
        None \<Rightarrow> (Some EntryNotFound, c)
      | Some entry \<Rightarrow>
          saveMetadata (c\<lparr>index := (index c)(key \<mapsto> entry\<lparr>Metadata := metadata\<rparr>)\<rparr>) key metadata)"

definition GetMetadata :: "Cache \<Rightarrow> string \<Rightarrow> error + Metadata" where
  "GetMetadata c key =
     (case index c key of
        None \<Rightarrow> Inl EntryNotFound
      | Some entry \<Rightarrow> Inr (Metadata entry))"

text \<open>
  What \<^verbatim>\<open>json.Unmarshal\<close> makes of the file at the index path. An index document
  decodes to its members. A metadata document decodes without error, its members
  being unknown to the target: the map and the list stay nil. For other bytes the
  decoder is a parameter, \<open>None\<close> where it returns an error.
\<close>

definition decodeIndex ::
  "(bytes \<Rightarrow> ((string \<rightharpoonup> CacheEntry option) option \<times> string list) option) \<Rightarrow> content \<Rightarrow>
   ((string \<rightharpoonup> CacheEntry option) option \<times> string list) option" where
  "decodeIndex unmarshal f =
     (case f of
        IndexJSON entries al \<Rightarrow> Some (entries, al)
      | MetaJSON md \<Rightarrow> Some (None, [])
      | Bytes b \<Rightarrow> unmarshal b
      | Unreadable \<Rightarrow> None)"

text \<open>
  \<^verbatim>\<open>loadIndex\<close>. After a decoding without error the map and the list are assigned, and
  the loop over the map adds every entry's size to the total, which \<^verbatim>\<open>New\<close> has left
  at zero; on a \<^verbatim>\<open>null\<close> entry the loop dereferences a nil pointer and panics. The loop
  visits every key once, in an order Go does not fix; the model visits them in sorted
  order (a Go map is finite), the sum and the panic being the same in any order.
\<close>

definition loadIndex ::
  "(bytes \<Rightarrow> ((string \<rightharpoonup> CacheEntry option) option \<times> string list) option) \<Rightarrow> Cache \<Rightarrow>
   (error option \<times> Cache) run" where
  "loadIndex unmarshal c =
     (case ReadFile c (joinPath (dir c) ''index.json'') of
        Inl FileNotExist \<Rightarrow> Returns (None, c)
      | Inl err \<Rightarrow> Returns (Some err, c)
      | Inr f \<Rightarrow>
          (case decodeIndex unmarshal f of
             None \<Rightarrow> Returns (Some IndexMalformed, c)
           | Some (entries, al) \<Rightarrow>
               (let m = (case entries of None \<Rightarrow> Map.empty | Some es \<Rightarrow> es);
                    keys = sorted_list_of_set (dom m)
                in if list_ex (\<lambda>k. m k = Some None) keys then Panics
                   else
                     Returns (None,
                       c\<lparr>index := (\<lambda>k. case m k of None \<Rightarrow> None | Some e \<Rightarrow> e),
                         nilIndex := (entries = None),
                         accessList := al,
                         currentBytes :=
                           foldl (\<lambda>total k. total + Size (Metadata (the (the (m k)))))
                             (currentBytes c) keys\<rparr>))))"

text \<open>
  \<^verbatim>\<open>New\<close>. \<^verbatim>\<open>os.MkdirAll\<close> succeeds when the directory can be written.
\<close>

definition New ::
  "(bytes \<Rightarrow> ((string \<rightharpoonup> CacheEntry option) option \<times> string list) option) \<Rightarrow>
   (string \<rightharpoonup> content) \<Rightarrow> (string \<Rightarrow> bool) \<Rightarrow> (level \<times> string) list \<Rightarrow>
   string \<Rightarrow> int \<Rightarrow> int64 \<Rightarrow> (error + Cache) run" where
  "New unmarshal fs wr lg d t m =
     (if \<not> wr d then Returns (Inl CreateDirFailed)
      else
        (let c = \<lparr>dir = d, ttl = t, maxBytes = m, index = Map.empty, nilIndex = False,
                  accessList = [], currentBytes = 0, files = fs, writable = wr, logged = lg\<rparr>
         in case loadIndex unmarshal c of
              Panics \<Rightarrow> Panics
            | Returns (None, c') \<Rightarrow> Returns (Inr c')
            | Returns (Some err, c') \<Rightarrow>
                Returns (Inr (logLine Warn ''failed to load cache index, starting fresh'' c'))))"

text \<open>
  \<^verbatim>\<open>CheckConditional\<close>. The request is seen through its headers, read with
  \<^verbatim>\<open>Header.Get\<close>; \<^verbatim>\<open>http.ParseTime\<close> is a parameter, \<open>None\<close> where it returns an error.
\<close>

definition CheckConditional ::
  "(string \<Rightarrow> int option) \<Rightarrow> Cache \<Rightarrow> int \<Rightarrow> string \<Rightarrow> (string \<rightharpoonup> string) \<Rightarrow> bool" where
  "CheckConditional parseTime c now key req =
     (case index c key of
        None \<Rightarrow> False
      | Some entry \<Rightarrow>
          if now - CreatedAt (Metadata entry) > ttl c then False
          else
            (let ifNoneMatch = hdr req ''If-None-Match''
             in if ifNoneMatch \<noteq> [] \<and> hdr (Headers (Metadata entry)) ''ETag'' = ifNoneMatch
                then True
                else
                  (let ifModifiedSince = hdr req ''If-Modified-Since''
                   in if ifModifiedSince \<noteq> [] then
                        (case parseTime ifModifiedSince of
                           None \<Rightarrow> False
                         | Some t \<Rightarrow>
                             (let lastModified = hdr (Headers (Metadata entry)) ''Last-Modified''
                              in if lastModified \<noteq> [] then
                                   (case parseTime lastModified of
                                      None \<Rightarrow> False
                                    | Some lmt \<Rightarrow> \<not> lmt > t)
                                 else False))
                      else False)))"

section \<open>Key derivation\<close>

text \<open>
  \<^verbatim>\<open>GenerateKey\<close>. A Go map has no order of its own: \<^verbatim>\<open>range\<close> yields its pairs in any
  order. The query is therefore a list of (name, value) pairs with distinct names, one
  enumeration of the map, and two lists with the same pairs stand for the same map.
  \<^verbatim>\<open>sort.Strings\<close> sorts by the bytewise lexicographic order, the order of strings in
  HOL here. The hex-encoded SHA-256 digest of the standard library is a parameter.
\<close>

definition queryValue :: "(string \<times> string) list \<Rightarrow> string \<Rightarrow> string" where
  "queryValue query k = (case map_of query k of None \<Rightarrow> [] | Some v \<Rightarrow> v)"

definition fullURL :: "string \<Rightarrow> (string \<times> string) list \<Rightarrow> string" where
  "fullURL path query =
     (let keys = sort (map fst query);
          parts = path # map (\<lambda>k. k @ ''='' @ queryValue query k) keys
      in joinStrings parts ''?'')"

definition GenerateKey :: "(string \<Rightarrow> string) \<Rightarrow> string \<Rightarrow> (string \<times> string) list \<Rightarrow> string" where
  "GenerateKey sha256hex path query = sha256hex (fullURL path query)"

section \<open>The proxy handler\<close>

text \<open>
  The request is seen as \<^verbatim>\<open>ServeHTTP\<close> reads it: the method, the hash left by
  \<^verbatim>\<open>normalizeHash\<close>, the URL query as an enumeration of \<^verbatim>\<open>url.Values\<close>, the headers
  (a name is mapped to what \<^verbatim>\<open>Header.Get\<close> returns for it, here and in the upstream
  response), and the outcome of \<^verbatim>\<open>checkAccessControl\<close>: its verdict and the headers it
  has set on the response writer.
  The upstream round trip is a function from the request sent to the response received
  (\<open>None\<close> for a transport error); the requests sent are returned with the response,
  so that a run without upstream contact returns none.
\<close>

record Request =
  rMethod :: string
  rHash :: string
  urlQuery :: "(string \<times> string list) list"
  header :: "string \<rightharpoonup> string"
  accessAllowed :: bool
  corsHeader :: "string \<rightharpoonup> string"

record UpstreamRequest =
  uHash :: string
  uQuery :: "(string \<times> string) list"
  uIfNoneMatch :: "string option"
  uIfModifiedSince :: "string option"

record UpstreamResponse =
  uStatus :: int
  uHeader :: "string \<rightharpoonup> string"
  uBody :: "bytes option"

text \<open>
  The response writer the server of \<^verbatim>\<open>net/http\<close> hands to the handler, as far as the
  handler drives it: the header map \<^verbatim>\<open>w.Header()\<close>, whether the header has been
  written, and then the status and the header map as it stood at that moment (changes
  made to the map later are not sent); the informational responses sent before the
  header; the chunks of the body that have been written; and whether the request is a
  \<^verbatim>\<open>HEAD\<close>, to which no body is sent. What the server adds of its own (the date, a
  sniffed content type, the framing of the body) is left out.
\<close>

datatype chunk = Payload content | Message string

record Response =
  rHeader :: "string \<rightharpoonup> string"
  wroteHeader :: bool
  rStatus :: int
  rSent :: "string \<rightharpoonup> string"
  rInterim :: "(int \<times> (string \<rightharpoonup> string)) list"
  rBody :: "chunk list"
  headRequest :: bool

text \<open>
  What the handler takes from outside the cache: the library functions
  (\<^verbatim>\<open>http.ParseTime\<close>, the hex-encoded SHA-256 digest, and
  \<^verbatim>\<open>textproto.CanonicalMIMEHeaderKey\<close>, which \<^verbatim>\<open>Header.Set\<close> applies to the name), the
  order in which \<^verbatim>\<open>range\<close> yields the keys of a header map, the upstream,
  whether \<^verbatim>\<open>http.NewRequest\<close> accepts the upstream URL, whether the connection of
  this request refuses a chunk of the body (the \<^verbatim>\<open>Content-Length\<close> that the response
  declares would be exceeded, or the connection has failed), the handler's TTL in whole
  seconds (\<^verbatim>\<open>int(h.ttl.Seconds())\<close>, a conversion through floating point), and the
  readings of the clock at the five places where one request reads it.
\<close>

record Env =
  parseTime :: "string \<Rightarrow> int option"
  sha256hex :: "string \<Rightarrow> string"
  canonicalKey :: "string \<Rightarrow> string"
  rangeOrder :: "(string \<rightharpoonup> string) \<Rightarrow> string list"
  roundTrip :: "UpstreamRequest \<Rightarrow> UpstreamResponse option"
  requestOK :: bool
  refuses :: "chunk \<Rightarrow> bool"
  ttlSeconds :: int
  tCheck :: int
  tGet :: int
  tCreated :: int
  tAccessed :: int
  tRead :: int

function showNat :: "nat \<Rightarrow> string" where
  "showNat n =
     (if n < 10 then [char_of (48 + n)]
      else showNat (n div 10) @ [char_of (48 + n mod 10)])"
  by pat_completeness auto
termination
  by (relation "measure (\<lambda>n. n)") auto

definition showInt :: "int \<Rightarrow> string" where
  "showInt i = (if i < 0 then ''-'' @ showNat (nat (- i)) else showNat (nat i))"

definition ExtractHeaders :: "(string \<rightharpoonup> string) \<Rightarrow> (string \<rightharpoonup> string)" where
  "ExtractHeaders h =
     foldl (\<lambda>headers key. let val = hdr h key in if val \<noteq> [] then headers(key \<mapsto> val) else headers)
       Map.empty
       [''Content-Type'', ''ETag'', ''Last-Modified'', ''Cache-Control'', ''Content-Length'']"

definition extractQueryParams :: "(string \<times> string list) list \<Rightarrow> (string \<times> string) list" where
  "extractQueryParams q =
     map (\<lambda>(k, v). (k, hd v))
       (filter (\<lambda>(k, v). k \<in> set [''s'', ''d'', ''r'', ''f''] \<and> length v > 0) q)"

text \<open>\<^verbatim>\<open>w.Header().Set(k, v)\<close>, and the loop that sets every header of a stored map.\<close>

definition setHeader :: "Env \<Rightarrow> Response \<Rightarrow> string \<Rightarrow> string \<Rightarrow> Response" where
  "setHeader env w k v = w\<lparr>rHeader := (rHeader w)(canonicalKey env k \<mapsto> v)\<rparr>"

definition setHeaders :: "Env \<Rightarrow> Response \<Rightarrow> (string \<rightharpoonup> string) \<Rightarrow> Response" where
  "setHeaders env w h =
     foldl (\<lambda>w' k. case h k of None \<Rightarrow> w' | Some v \<Rightarrow> setHeader env w' k v) w (rangeOrder env h)"

text \<open>
  \<^verbatim>\<open>w.WriteHeader(code)\<close>. A call after the header has been written does nothing (the
  server logs it as superfluous). A code below 100 or above 999 panics. A code from
  100 to 199 other than 101 sends an informational response and leaves the header
  unwritten. Any other code becomes the status, and the header map is fixed.
\<close>

definition WriteHeader :: "Response \<Rightarrow> int \<Rightarrow> Response run" where
  "WriteHeader w code =
     (if wroteHeader w then Returns w
      else if code < 100 \<or> code > 999 then Panics
      else if 100 \<le> code \<and> code \<le> 199 \<and> code \<noteq> 101 then
        Returns (w\<lparr>rInterim := rInterim w @ [(code, rHeader w)]\<rparr>)
      else Returns (w\<lparr>wroteHeader := True, rStatus := code, rSent := rHeader w\<rparr>))"

text \<open>
  \<^verbatim>\<open>w.Write(data)\<close>. It first writes the header with status 200 if none has been
  written. Then nothing is left to do for an empty chunk; a status from 100 to 199,
  204 or 304 allows no body (\<^verbatim>\<open>http.ErrBodyNotAllowed\<close>); the connection may refuse the
  chunk; for a \<^verbatim>\<open>HEAD\<close> request the chunk is accepted and dropped. A write that fails
  is taken to send nothing.
\<close>

definition emptyChunk :: "chunk \<Rightarrow> bool" where
  "emptyChunk ch \<longleftrightarrow> ch = Payload (Bytes []) \<or> ch = Message []"

definition bodyAllowed :: "int \<Rightarrow> bool" where
  "bodyAllowed status \<longleftrightarrow> \<not> (100 \<le> status \<and> status \<le> 199) \<and> status \<noteq> 204 \<and> status \<noteq> 304"

definition Write :: "Env \<Rightarrow> Response \<Rightarrow> chunk \<Rightarrow> error option \<times> Response" where
  "Write env w ch =
     (let w1 = (if wroteHeader w then w
                else w\<lparr>wroteHeader := True, rStatus := 200, rSent := rHeader w\<rparr>)
      in if emptyChunk ch then (None, w1)
         else if \<not> bodyAllowed (rStatus w1) then (Some BodyNotAllowed, w1)
         else if refuses env ch then (Some WriteRefused, w1)
         else if headRequest w1 then (None, w1)
         else (None, w1\<lparr>rBody := rBody w1 @ [ch]\<rparr>))"

text \<open>
  \<^verbatim>\<open>http.Error\<close> (Go 1.22, which the repository builds with): two headers, the status,
  and the message with a line feed as the body; the error of the write is dropped.
\<close>

definition httpError :: "Env \<Rightarrow> Response \<Rightarrow> string \<Rightarrow> int \<Rightarrow> Response run" where
  "httpError env w msg code =
     (let w1 = setHeader env w ''Content-Type'' ''text/plain; charset=utf-8'';
          w2 = setHeader env w1 ''X-Content-Type-Options'' ''nosniff''
      in case WriteHeader w2 code of
           Panics \<Rightarrow> Panics
         | Returns w3 \<Rightarrow> Returns (snd (Write env w3 (Message (msg @ [CHR 0x0A])))))"

text \<open>\<^verbatim>\<open>WriteResponse\<close>, a method of the cache that drives the response writer.\<close>

definition WriteResponse ::
  "Env \<Rightarrow> Cache \<Rightarrow> int \<Rightarrow> Response \<Rightarrow> string \<Rightarrow> int \<Rightarrow>
   (error option \<times> Response) run \<times> Cache" where
  "WriteResponse env c now w key ttlSecs =
     (case ReadData c now key of
        (Inl err, c1) \<Rightarrow> (Returns (Some err, w), c1)
      | (Inr data, c1) \<Rightarrow>
          (case GetMetadata c1 key of
             Inl err \<Rightarrow> (Returns (Some err, w), c1)
           | Inr metadata \<Rightarrow>
               (let w1 = setHeaders env w (Headers metadata);
                    w2 = setHeader env w1 ''Cache-Control''
                           (''public, max-age='' @ showInt ttlSecs)
                in case WriteHeader w2 (StatusCode metadata) of
                     Panics \<Rightarrow> (Panics, c1)
                   | Returns w3 \<Rightarrow> (Returns (Write env w3 (Payload data)), c1))))"

definition LogRequest :: "Cache \<Rightarrow> Cache" where
  "LogRequest c = logLine Info ''request'' c"

text \<open>
  The reply to a request that ends in \<^verbatim>\<open>http.Error\<close> followed by the request log line.
\<close>

definition failWith ::
  "Env \<Rightarrow> Cache \<Rightarrow> Response \<Rightarrow> string \<Rightarrow> int \<Rightarrow> Response run \<times> Cache" where
  "failWith env c w msg code =
     (case httpError env w msg code of
        Panics \<Rightarrow> (Panics, c)
      | Returns w1 \<Rightarrow> (Returns w1, LogRequest c))"

text \<open>The branch taken on a fresh hit and, after the refresh, on an upstream 304.\<close>

definition serveCached ::
  "Env \<Rightarrow> Cache \<Rightarrow> Response \<Rightarrow> string \<Rightarrow> UpstreamRequest list \<Rightarrow>
   (Response run \<times> UpstreamRequest list) \<times> Cache" where
  "serveCached env c w cacheKey sent =
     (case WriteResponse env c (tRead env) w cacheKey (ttlSeconds env) of
        (Panics, c1) \<Rightarrow> ((Panics, sent), c1)
      | (Returns (Some err, w1), c1) \<Rightarrow>
          (case failWith env (logLine Error ''failed to write cached response'' c1) w1
                  ''Internal server error'' 500 of
             (res, c2) \<Rightarrow> ((res, sent), c2))
      | (Returns (None, w1), c1) \<Rightarrow> ((Returns w1, sent), LogRequest c1))"

definition validator :: "CacheEntry option \<Rightarrow> string \<Rightarrow> string option" where
  "validator entry name =
     (case entry of
        None \<Rightarrow> None
      | Some e \<Rightarrow> (let v = hdr (Headers (Metadata e)) name in if v \<noteq> [] then Some v else None))"

text \<open>Lines 89 to 164 of \<^verbatim>\<open>ServeHTTP\<close>: the upstream request and what follows it.\<close>

definition fetchUpstream ::
  "Env \<Rightarrow> Cache \<Rightarrow> Response \<Rightarrow> string \<Rightarrow> (string \<times> string) list \<Rightarrow> string \<Rightarrow>
   CacheEntry option \<Rightarrow> (Response run \<times> UpstreamRequest list) \<times> Cache" where
  "fetchUpstream env c0 w hash queryParams cacheKey entry =
     (if \<not> requestOK env then
        (case failWith env (logLine Error ''failed to create upstream request'' c0) w
                ''Internal server error'' 500 of
           (res, c') \<Rightarrow> ((res, []), c'))
      else
        (let req = \<lparr>uHash = hash, uQuery = queryParams,
                    uIfNoneMatch = validator entry ''ETag'',
                    uIfModifiedSince = validator entry ''Last-Modified''\<rparr>;
             c1 = logLine Info ''fetching from upstream'' c0
         in case roundTrip env req of
              None \<Rightarrow>
                (case failWith env (logLine Error ''upstream request failed'' c1) w
                        ''Failed to fetch from upstream'' 502 of
                   (res, c') \<Rightarrow> ((res, [req]), c'))
            | Some resp \<Rightarrow>
                (case (if uStatus resp = 304 then entry else None) of
                   Some e \<Rightarrow>
                     (let c2 = logLine Info ''upstream returned 304, refreshing cache'' c1;
                          metadata = (Metadata e)\<lparr>CreatedAt := tCreated env,
                                       LastAccessedAt := tAccessed env\<rparr>;
                          c3 = (case UpdateMetadata c2 cacheKey metadata of
                                  (None, c') \<Rightarrow> c'
                                | (Some err, c') \<Rightarrow>
                                    logLine Warn ''failed to update metadata'' c')
                      in serveCached env c3 w cacheKey [req])
                 | None \<Rightarrow>
                     (case uBody resp of
                        None \<Rightarrow>
                          (case failWith env (logLine Error ''failed to read response body'' c1) w
                                  ''Failed to read upstream response'' 500 of
                             (res, c') \<Rightarrow> ((res, [req]), c'))
                      | Some data \<Rightarrow>
                          (let metadata = \<lparr>CreatedAt = tCreated env,
                                  LastAccessedAt = tAccessed env,
                                  Headers = ExtractHeaders (uHeader resp),
                                  StatusCode = uStatus resp, Size = 0\<rparr>
                           in case Set c1 cacheKey data metadata of
                                (Panics, c') \<Rightarrow> ((Panics, [req]), c')
                              | (Returns err, c') \<Rightarrow>
                                  (let c2 = (case err of
                                               None \<Rightarrow> c'
                                             | Some e \<Rightarrow>
                                                 logLine Warn ''failed to cache response'' c');
                                       w1 = setHeaders env w (Headers metadata);
                                       w2 = setHeader env w1 ''Cache-Control''
                                              (''public, max-age='' @ showInt (ttlSeconds env))
                                   in case WriteHeader w2 (uStatus resp) of
                                        Panics \<Rightarrow> ((Panics, [req]), c2)
                                      | Returns w3 \<Rightarrow>
                                          ((Returns (snd (Write env w3 (Payload (Bytes data)))),
                                            [req]),
                                           LogRequest c2)))))))"

definition ServeHTTP ::
  "Env \<Rightarrow> Cache \<Rightarrow> Request \<Rightarrow> (Response run \<times> UpstreamRequest list) \<times> Cache" where
  "ServeHTTP env c r =
     (let w = \<lparr>rHeader = corsHeader r, wroteHeader = False, rStatus = 0, rSent = Map.empty,
               rInterim = [], rBody = [], headRequest = (rMethod r = ''HEAD'')\<rparr>
      in if rMethod r = ''OPTIONS'' then
           (if accessAllowed r then ((WriteHeader w 200, []), c)
            else (case failWith env c w ''Forbidden'' 403 of (res, c') \<Rightarrow> ((res, []), c')))
         else if \<not> accessAllowed r then
           (case failWith env c w ''Forbidden'' 403 of (res, c') \<Rightarrow> ((res, []), c'))
         else
           (let hash = rHash r
            in if hash = [] then ((httpError env w ''Invalid hash'' 400, []), LogRequest c)
               else
                 (let queryParams = extractQueryParams (urlQuery r);
                      cacheKey = GenerateKey (sha256hex env) (''/avatar/'' @ hash) queryParams
                  in if CheckConditional (parseTime env) c (tCheck env) cacheKey (header r)
                     then ((WriteHeader w 304, []), LogRequest c)
                     else
                       (case Get c (tGet env) cacheKey of
                          ((entry, valid), c0) \<Rightarrow>
                            if valid then
                              serveCached env (logLine Info ''cache hit'' c0) w cacheKey []
                            else fetchUpstream env c0 w hash queryParams cacheKey entry))))"

section \<open>Notions used to state the properties\<close>

declare evictIfNeeded.simps [simp del]

declare showNat.simps [simp del]

text \<open>The size the index records under a key, zero for a key it does not hold.\<close>

definition entrySize :: "(string \<rightharpoonup> CacheEntry) \<Rightarrow> string \<Rightarrow> int64" where
  "entrySize m k = (case m k of None \<Rightarrow> 0 | Some e \<Rightarrow> Size (Metadata e))"

text \<open>
  The sum of the sizes of the indexed entries, in 64-bit arithmetic, and the property
  that the running total equals it. A Go map is finite.
\<close>

definition sizeSum :: "(string \<rightharpoonup> CacheEntry) \<Rightarrow> int64" where
  "sizeSum m = (\<Sum>k\<in>dom m. Size (Metadata (the (m k))))"

definition totalMatches :: "Cache \<Rightarrow> bool" where
  "totalMatches c \<longleftrightarrow> finite (dom (index c)) \<and> currentBytes c = sizeSum (index c)"

text \<open>The metadata handed to \<^verbatim>\<open>UpdateMetadata\<close> carries the size the entry already has.\<close>

definition keepsSize :: "Cache \<Rightarrow> string \<Rightarrow> Metadata \<Rightarrow> bool" where
  "keepsSize c key md \<longleftrightarrow>
     (case index c key of None \<Rightarrow> True | Some e \<Rightarrow> Size md = Size (Metadata e))"

text \<open>Every indexed key is on the recency list.\<close>

definition listed :: "Cache \<Rightarrow> bool" where
  "listed c \<longleftrightarrow> dom (index c) \<subseteq> set (accessList c)"

text \<open>
  The store in the middle of a \<^verbatim>\<open>Set\<close> whose two writes have succeeded: the entry is
  indexed, the total adjusted and the key touched; the eviction loop has not run yet.
\<close>

definition admitted :: "Cache \<Rightarrow> string \<Rightarrow> bytes \<Rightarrow> Metadata \<Rightarrow> Cache" where
  "admitted c key data md =
     c\<lparr>files := (files c)(joinPath (dir c) key \<mapsto> Bytes data,
                         joinPath (dir c) (key @ ''.meta'') \<mapsto>
                           MetaJSON (md\<lparr>Size := of_nat (length data)\<rparr>)),
       index := (index c)(key \<mapsto> \<lparr>Key = key, FilePath = joinPath (dir c) key,
                                     Metadata = md\<lparr>Size := of_nat (length data)\<rparr>\<rparr>),
       currentBytes := currentBytes c - entrySize (index c) key + of_nat (length data),
       accessList := remove1 key (accessList c) @ [key]\<rparr>"

text \<open>
  A plain file name: not empty, without a slash, and neither of the two dot names. The
  path that \<^verbatim>\<open>filepath.Join\<close> gives to a plain name in a directory is the name behind
  the cleaned directory (\<open>pathBase\<close>); for other names it may be a path that another
  name has as well.
\<close>

definition plainName :: "string \<Rightarrow> bool" where
  "plainName k \<longleftrightarrow> k \<noteq> [] \<and> CHR ''/'' \<notin> set k \<and> k \<noteq> ''.'' \<and> k \<noteq> ''..''"

definition pathBase :: "string \<Rightarrow> string" where
  "pathBase d =
     (if d = [] then []
      else
        (let rooted = (hd d = CHR ''/'');
             out = foldl (cleanStep rooted) [] (splitOn CHR ''/'' d)
         in (if rooted then ''/'' else []) @ (if out = [] then [] else joinStrings out ''/'' @ ''/'')))"

text \<open>
  Every indexed key is a plain file name, and its entry's artifact is the file of that
  name in the cache directory.
\<close>

definition placed :: "Cache \<Rightarrow> bool" where
  "placed c \<longleftrightarrow>
     (\<forall>k e. index c k = Some e \<longrightarrow> plainName k \<and> FilePath e = joinPath (dir c) k)"

text \<open>
  The invariant of the store: the index is a map that can be assigned to, the total
  matches it, every indexed key is on the recency list, the list has no duplicates, and
  every artifact lies at its key's path. \<^verbatim>\<open>New\<close> establishes it in a directory without
  an index document, and \<^verbatim>\<open>Set\<close> with a plain key, \<^verbatim>\<open>ReadData\<close>, \<^verbatim>\<open>Get\<close> and a
  size-keeping \<^verbatim>\<open>UpdateMetadata\<close> preserve it.
\<close>

definition wellFormed :: "Cache \<Rightarrow> bool" where
  "wellFormed c \<longleftrightarrow>
     \<not> nilIndex c \<and> totalMatches c \<and> listed c \<and> distinct (accessList c) \<and> placed c"

text \<open>
  What the eviction loop keeps true of the key a \<^verbatim>\<open>Set\<close> has just stored, when the entry
  alone fits under the ceiling: the key is the last of the recency list and occurs
  nowhere else in it, its entry is indexed and its artifact is on disk.
\<close>

definition retains :: "string \<Rightarrow> CacheEntry \<Rightarrow> bytes \<Rightarrow> Cache \<Rightarrow> bool" where
  "retains key entry data c \<longleftrightarrow>
     totalMatches c \<and> listed c \<and> placed c \<and>
     accessList c \<noteq> [] \<and> last (accessList c) = key \<and> key \<notin> set (butlast (accessList c)) \<and>
     index c key = Some entry \<and> files c (joinPath (dir c) key) = Some (Bytes data) \<and>
     \<not> maxBytes c <s Size (Metadata entry)"

text \<open>
  A path and a query that the canonical string can be read back from: no question mark
  in the path, the names or the values, no equals sign in a name, and distinct names
  (the list enumerates a map).
\<close>

definition unambiguous :: "string \<Rightarrow> (string \<times> string) list \<Rightarrow> bool" where
  "unambiguous path query \<longleftrightarrow>
     CHR ''?'' \<notin> set path \<and> distinct (map fst query) \<and>
     (\<forall>(k, v)\<in>set query. CHR ''?'' \<notin> set k \<and> CHR ''='' \<notin> set k \<and> CHR ''?'' \<notin> set v)"

text \<open>
  A header carries a value when \<^verbatim>\<open>Header.Get\<close> (or the lookup in the stored header
  map) returns a non-empty string: Go does not tell an absent header from an empty one.
\<close>

definition carries :: "(string \<rightharpoonup> string) \<Rightarrow> string \<Rightarrow> bool" where
  "carries h name \<longleftrightarrow> hdr h name \<noteq> []"

text \<open>
  The match of the client's validators against a stored entry, in the words of the
  specification: the request carries an \<^verbatim>\<open>If-None-Match\<close> value that is, as a string,
  the stored \<^verbatim>\<open>ETag\<close> value; or the request carries an \<^verbatim>\<open>If-Modified-Since\<close> value
  that parses as a time, and the entry a \<^verbatim>\<open>Last-Modified\<close> value that parses as a time
  not after it.
\<close>

definition validatorsMatch :: "(string \<Rightarrow> int option) \<Rightarrow> CacheEntry \<Rightarrow> (string \<rightharpoonup> string) \<Rightarrow> bool" where
  "validatorsMatch parse entry req \<longleftrightarrow>
     (carries req ''If-None-Match'' \<and>
      hdr (Headers (Metadata entry)) ''ETag'' = hdr req ''If-None-Match'') \<or>
     (carries req ''If-Modified-Since'' \<and> carries (Headers (Metadata entry)) ''Last-Modified'' \<and>
      (case (parse (hdr req ''If-Modified-Since''),
             parse (hdr (Headers (Metadata entry)) ''Last-Modified'')) of
         (Some t, Some lmt) \<Rightarrow> lmt \<le> t
       | _ \<Rightarrow> False))"




text \<open>The cache key the handler derives for a request, and the conditional request it
  sends upstream for an entry it holds.\<close>

definition cacheKeyOf :: "Env \<Rightarrow> Request \<Rightarrow> string" where
  "cacheKeyOf env r =
     GenerateKey (sha256hex env) (''/avatar/'' @ rHash r) (extractQueryParams (urlQuery r))"




subsection \<open>Concrete stores\<close>

definition md0 :: Metadata where
  "md0 = \<lparr>CreatedAt = 1000, LastAccessedAt = 1000, Headers = [''ETag'' \<mapsto> ''abc123''],
          StatusCode = 200, Size = 0\<rparr>"

text \<open>
  The store \<^verbatim>\<open>New\<close> builds in the empty directory \<^verbatim>\<open>./cache\<close>, with a TTL and a ceiling
  of 100. The files of the directory have paths that start with \<^verbatim>\<open>cache/\<close>.
\<close>

definition store0 :: Cache where
  "store0 = \<lparr>dir = ''./cache'', ttl = 100, maxBytes = 100, index = Map.empty, nilIndex = False,
             accessList = [], currentBytes = 0, files = Map.empty, writable = (\<lambda>p. True),
             logged = []\<rparr>"

definition store1 :: Cache where
  "store1 = snd (Set store0 ''k1'' [1, 2, 3] md0)"

text \<open>A store with a ceiling of four bytes, empty and after one insertion.\<close>

definition small0 :: Cache where
  "small0 = store0\<lparr>maxBytes := 4\<rparr>"

definition small1 :: Cache where
  "small1 = snd (Set small0 ''k1'' [1, 2, 3] md0)"

text \<open>
  A request for the avatar \<^verbatim>\<open>abc\<close> that carries \<^verbatim>\<open>If-None-Match: abc123\<close>, and two
  environments: in both the digest sends the request to the key \<^verbatim>\<open>k1\<close>, the header
  name \<^verbatim>\<open>ETag\<close> has the canonical form \<^verbatim>\<open>Etag\<close>, the upstream answers 304 and the
  connection refuses nothing; in the first the clock stands at 1050, in the second at
  2000.
\<close>

definition req0 :: Request where
  "req0 = \<lparr>rMethod = ''GET'', rHash = ''abc'', urlQuery = [(''s'', [''80''])],
            header = [''If-None-Match'' \<mapsto> ''abc123''], accessAllowed = True,
            corsHeader = Map.empty\<rparr>"

definition env0 :: Env where
  "env0 = \<lparr>parseTime = (\<lambda>s. None), sha256hex = (\<lambda>s. ''k1''),
            canonicalKey = (\<lambda>k. if k = ''ETag'' then ''Etag'' else k),
            rangeOrder = (\<lambda>h. sorted_list_of_set (dom h)),
            roundTrip = (\<lambda>q. Some \<lparr>uStatus = 304, uHeader = Map.empty, uBody = Some []\<rparr>),
            requestOK = True, refuses = (\<lambda>ch. False), ttlSeconds = 0,
            tCheck = 1050, tGet = 1050, tCreated = 1050, tAccessed = 1050, tRead = 1050\<rparr>"

definition env1 :: Env where
  "env1 = env0\<lparr>tCheck := 2000, tGet := 2000, tCreated := 2000, tAccessed := 2000, tRead := 2001\<rparr>"

definition entry1 :: CacheEntry where
  "entry1 = \<lparr>Key = ''k1'', FilePath = ''cache/k1'', Metadata = md0\<lparr>Size := 3\<rparr>\<rparr>"



section \<open>Lemmas on paths\<close>

lemma splitOn_nonempty: "splitOn c xs \<noteq> []"
  by (induction xs) (auto split: list.split)

lemma splitOn_append: "splitOn c (xs @ c # ys) = splitOn c xs @ splitOn c ys"
proof (induction xs)
  case Nil
  show ?case by simp
next
  case (Cons x xs)
  obtain y ys' where "splitOn c xs = y # ys'"
    using splitOn_nonempty [of c xs] by (cases "splitOn c xs") auto
  with Cons show ?case by simp
qed

lemma splitOn_plain: "c \<notin> set k \<Longrightarrow> splitOn c k = [k]"
  by (induction k) auto

lemma joinStrings_snoc:
  "joinStrings (out @ [k]) sep = (if out = [] then k else joinStrings out sep @ sep @ k)"
  by (induction out sep rule: joinStrings.induct) auto

lemma cleanStep_plain: "plainName k \<Longrightarrow> cleanStep rooted out k = out @ [k]"
  by (simp add: cleanStep_def plainName_def)

lemma joinPath_plain:
  assumes "plainName k"
  shows "joinPath d k = pathBase d @ k"
proof (cases "d = []")
  case True
  from assms have k: "k \<noteq> []" "CHR ''/'' \<notin> set k" by (simp_all add: plainName_def)
  then have "hd k \<noteq> CHR ''/''" by (cases k) auto
  then show ?thesis using True k assms
    by (simp add: joinPath_def Clean_def pathBase_def splitOn_plain cleanStep_plain Let_def)
next
  case False
  from assms have k: "k \<noteq> []" "CHR ''/'' \<notin> set k" by (simp_all add: plainName_def)
  define rooted where "rooted = (hd d = CHR ''/'')"
  define out where "out = foldl (cleanStep rooted) [] (splitOn CHR ''/'' d)"
  have split: "splitOn CHR ''/'' (d @ CHR ''/'' # k) = splitOn CHR ''/'' d @ [k]"
    using splitOn_append [of "CHR ''/''" d k] k(2) by (simp add: splitOn_plain)
  have hd: "hd (d @ CHR ''/'' # k) = hd d" using False by simp
  have fold: "foldl (cleanStep rooted) [] (splitOn CHR ''/'' (d @ CHR ''/'' # k)) = out @ [k]"
    unfolding split out_def using assms by (simp add: cleanStep_plain)
  have "joinPath d k = Clean (d @ CHR ''/'' # k)"
    using False by (simp add: joinPath_def)
  also have "\<dots> = (if rooted then ''/'' else []) @ joinStrings (out @ [k]) ''/''"
    using k(1) unfolding Clean_def Let_def hd fold [unfolded rooted_def] rooted_def
    by (auto simp: joinStrings_snoc)
  also have "\<dots> = pathBase d @ k"
    using False unfolding pathBase_def Let_def rooted_def [symmetric] out_def [symmetric]
    by (simp add: joinStrings_snoc)
  finally show ?thesis .
qed

lemma plainName_meta: "plainName k \<Longrightarrow> plainName (k @ ''.meta'')"
  by (auto simp: plainName_def append_eq_Cons_conv)

lemma plainName_index: "plainName ''index.json''"
  by (simp add: plainName_def)

lemma joinPath_inject:
  "plainName a \<Longrightarrow> plainName b \<Longrightarrow> joinPath d a = joinPath d b \<longleftrightarrow> a = b"
  by (simp add: joinPath_plain)

lemma joinPath_meta:
  "plainName key \<Longrightarrow> plainName h \<Longrightarrow> CHR ''.'' \<notin> set key \<Longrightarrow>
   joinPath d key \<noteq> joinPath d h @ ''.meta''"
  by (auto simp: joinPath_plain)

lemma joinPath_meta2: "plainName key \<Longrightarrow> joinPath d key \<noteq> joinPath d (key @ ''.meta'')"
  by (simp add: joinPath_plain plainName_meta)

lemma joinPath_index:
  "plainName key \<Longrightarrow> CHR ''.'' \<notin> set key \<Longrightarrow> joinPath d key \<noteq> joinPath d ''index.json''"
  by (auto simp: joinPath_plain plainName_index)

lemma pathBase_cache: "pathBase ''./cache'' = ''cache/''"
  by (simp add: pathBase_def cleanStep_def Let_def)

lemma joinPath_cache: "plainName k \<Longrightarrow> joinPath ''./cache'' k = ''cache/'' @ k"
  by (simp add: joinPath_plain pathBase_cache)

section \<open>Lemmas on the running total\<close>

lemma sizeSum_delete:
  assumes "finite (dom m)"
  shows "sizeSum (m(k := None)) = sizeSum m - entrySize m k"
proof -
  let ?f = "\<lambda>x. Size (Metadata (the (m x)))"
  have "sizeSum (m(k := None)) = sum ?f (dom m - {k})"
    unfolding sizeSum_def by (rule sum.cong) auto
  also have "\<dots> = sum ?f (dom m) - entrySize m k"
    using assms by (auto simp: sum_diff1 entrySize_def domIff split: option.split)
  finally show ?thesis by (simp add: sizeSum_def)
qed

lemma sizeSum_update:
  assumes "finite (dom m)"
  shows "sizeSum (m(k \<mapsto> e)) = sizeSum m - entrySize m k + Size (Metadata e)"
proof -
  let ?g = "\<lambda>x. Size (Metadata (the ((m(k \<mapsto> e)) x)))"
  have "sizeSum (m(k \<mapsto> e)) = sum ?g (insert k (dom m))"
    by (simp add: sizeSum_def)
  also have "\<dots> = ?g k + sum ?g (dom m - {k})"
    using assms by (rule sum.insert_remove)
  also have "sum ?g (dom m - {k}) = sizeSum (m(k := None))"
    unfolding sizeSum_def by (rule sum.cong) auto
  also have "?g k = Size (Metadata e)"
    by simp
  also have "sizeSum (m(k := None)) = sizeSum m - entrySize m k"
    using assms by (rule sizeSum_delete)
  finally show ?thesis
    by (simp only: add.commute)
qed

lemma evictHead_totalMatches:
  "totalMatches c \<Longrightarrow> totalMatches (evictHead c)"
  by (auto simp: totalMatches_def evictHead_def Remove_def logLine_def Let_def
        sizeSum_delete entrySize_def split: option.split)

lemma evictIfNeeded_totalMatches:
  "totalMatches c \<Longrightarrow> totalMatches (evictIfNeeded c)"
proof (induction c rule: evictIfNeeded.induct)
  case (1 c)
  then show ?case
    by (subst evictIfNeeded.simps) (simp add: evictHead_totalMatches)
qed

lemma saveIndex_fields:
  "index (snd (saveIndex c)) = index c" "currentBytes (snd (saveIndex c)) = currentBytes c"
  "accessList (snd (saveIndex c)) = accessList c"
  by (simp_all add: saveIndex_def WriteFile_def Let_def)

lemma saveMetadata_fields:
  "index (snd (saveMetadata c k md)) = index c" "currentBytes (snd (saveMetadata c k md)) = currentBytes c"
  "accessList (snd (saveMetadata c k md)) = accessList c"
  by (simp_all add: saveMetadata_def WriteFile_def Let_def)

section \<open>Lemmas on the eviction loop and on Set\<close>

lemma evictHead_effect:
  "accessList (evictHead c) = tl (accessList c)"
  "index (evictHead c) = (index c)(hd (accessList c) := None)"
  "currentBytes (evictHead c) = currentBytes c - entrySize (index c) (hd (accessList c))"
  "files (evictHead c) =
     (case index c (hd (accessList c)) of
        None \<Rightarrow> files c
      | Some e \<Rightarrow> (files c)(FilePath e := None, FilePath e @ ''.meta'' := None))"
  "maxBytes (evictHead c) = maxBytes c"
  "dir (evictHead c) = dir c"
  "ttl (evictHead c) = ttl c"
  "writable (evictHead c) = writable c"
  "nilIndex (evictHead c) = nilIndex c"
  by (auto simp: evictHead_def Remove_def logLine_def Let_def entrySize_def fun_upd_idem_iff
        split: option.split)



lemma evictHead_listed: "listed c \<Longrightarrow> listed (evictHead c)"
  by (cases "accessList c") (auto simp: listed_def evictHead_effect)



lemma evictIfNeeded_nilIndex: "nilIndex (evictIfNeeded c) = nilIndex c"
proof (induction c rule: evictIfNeeded.induct)
  case (1 c)
  then show ?case
    by (subst evictIfNeeded.simps) (simp add: evictHead_effect)
qed




lemma Set_succeeds_iff:
  "fst (Set c key data md) = Returns None \<longleftrightarrow>
     writable c (joinPath (dir c) key) \<and> writable c (joinPath (dir c) (key @ ''.meta'')) \<and>
     \<not> nilIndex c"
  by (auto simp: Set_def WriteFile_def Let_def split: option.split prod.split)

lemma Set_panics_iff:
  "fst (Set c key data md) = Panics \<longleftrightarrow>
     writable c (joinPath (dir c) key) \<and> writable c (joinPath (dir c) (key @ ''.meta'')) \<and>
     nilIndex c"
  by (auto simp: Set_def WriteFile_def Let_def split: option.split prod.split)

lemma Set_fails:
  assumes "fst (Set c key data md) \<noteq> Returns None" "\<not> nilIndex c"
  shows "index (snd (Set c key data md)) = index c"
    "currentBytes (snd (Set c key data md)) = currentBytes c"
    "accessList (snd (Set c key data md)) = accessList c"
    "nilIndex (snd (Set c key data md)) = nilIndex c"
  using assms unfolding Set_succeeds_iff
  by (auto simp: Set_def WriteFile_def Let_def)

lemma Set_succeeds:
  assumes "fst (Set c key data md) = Returns None"
  shows "snd (Set c key data md) =
     (case saveIndex (evictIfNeeded (admitted c key data md)) of
        (None, c') \<Rightarrow> c'
      | (Some err, c') \<Rightarrow> logLine Error ''failed to save cache index'' c')"
  using assms
  by (auto simp: Set_def WriteFile_def Let_def admitted_def updateAccessList_def entrySize_def
        split: if_splits option.splits prod.splits)

lemma Set_succeeds_fields:
  assumes "fst (Set c key data md) = Returns None"
  shows "index (snd (Set c key data md)) = index (evictIfNeeded (admitted c key data md))"
    "currentBytes (snd (Set c key data md)) = currentBytes (evictIfNeeded (admitted c key data md))"
    "accessList (snd (Set c key data md)) = accessList (evictIfNeeded (admitted c key data md))"
  by (simp_all add: Set_succeeds [OF assms] saveIndex_def WriteFile_def Let_def logLine_def
        split: prod.split)

lemma admitted_totalMatches: "totalMatches c \<Longrightarrow> totalMatches (admitted c key data md)"
  by (simp add: admitted_def totalMatches_def sizeSum_update)

lemma set_touch: "set (remove1 key xs @ [key]) = insert key (set xs)"
  by (induction xs) auto

lemma admitted_listed: "listed c \<Longrightarrow> listed (admitted c key data md)"
  by (auto simp: admitted_def listed_def set_touch simp del: set_append)

lemma Set_totalMatches:
  assumes "totalMatches c" "\<not> nilIndex c"
  shows "totalMatches (snd (Set c key data md))"
proof (cases "fst (Set c key data md) = Returns None")
  case True
  have "totalMatches (evictIfNeeded (admitted c key data md))"
    using assms by (simp add: admitted_totalMatches evictIfNeeded_totalMatches)
  then show ?thesis
    by (simp add: totalMatches_def Set_succeeds_fields [OF True])
next
  case False
  then show ?thesis using assms by (simp add: totalMatches_def Set_fails)
qed

lemma Set_nilIndex: "nilIndex (snd (Set c key data md)) = nilIndex c"
  by (auto simp: Set_def WriteFile_def Let_def saveIndex_def logLine_def updateAccessList_def
        evictIfNeeded_nilIndex split: option.split prod.split)


lemma ReadData_totalMatches:
  assumes "totalMatches c"
  shows "totalMatches (snd (ReadData c now key))"
proof (cases "index c key")
  case None
  then show ?thesis using assms by (simp add: ReadData_def)
next
  case (Some e)
  let ?e = "e\<lparr>Metadata := (Metadata e)\<lparr>LastAccessedAt := now\<rparr>\<rparr>"
  have "index (snd (ReadData c now key)) = (index c)(key \<mapsto> ?e)"
       "currentBytes (snd (ReadData c now key)) = currentBytes c"
    using Some
    by (auto simp: ReadData_def Let_def updateAccessList_def saveMetadata_def WriteFile_def
          logLine_def split: sum.split)
  then show ?thesis using assms Some
    by (simp add: totalMatches_def sizeSum_update entrySize_def)
qed

lemma UpdateMetadata_totalMatches:
  assumes "totalMatches c"
  shows "totalMatches (snd (UpdateMetadata c key md)) \<longleftrightarrow> keepsSize c key md"
proof (cases "index c key")
  case None
  then show ?thesis using assms by (simp add: UpdateMetadata_def keepsSize_def)
next
  case (Some e)
  have "index (snd (UpdateMetadata c key md)) = (index c)(key \<mapsto> e\<lparr>Metadata := md\<rparr>)"
       "currentBytes (snd (UpdateMetadata c key md)) = currentBytes c"
    using Some by (simp_all add: UpdateMetadata_def saveMetadata_fields)
  then show ?thesis using assms Some
    by (auto simp: totalMatches_def sizeSum_update entrySize_def keepsSize_def algebra_simps)
qed

lemma path_k1: "joinPath ''./cache'' ''k1'' = ''cache/k1''"
  "joinPath ''./cache'' ''k1.meta'' = ''cache/k1.meta''"
  "joinPath ''./cache'' ''k2'' = ''cache/k2''"
  "joinPath ''./cache'' ''k2.meta'' = ''cache/k2.meta''"
  "joinPath ''./cache'' ''index.json'' = ''cache/index.json''"
  by (simp_all add: joinPath_cache plainName_def)

lemma store1_eq:
  "store1 = \<lparr>dir = ''./cache'', ttl = 100, maxBytes = 100,
     index = [''k1'' \<mapsto> \<lparr>Key = ''k1'', FilePath = ''cache/k1'', Metadata = md0\<lparr>Size := 3\<rparr>\<rparr>],
     nilIndex = False, accessList = [''k1''], currentBytes = 3,
     files = [''cache/k1'' \<mapsto> Bytes [1, 2, 3], ''cache/k1.meta'' \<mapsto> MetaJSON (md0\<lparr>Size := 3\<rparr>),
              ''cache/index.json'' \<mapsto>
                IndexJSON (Some [''k1'' \<mapsto> Some \<lparr>Key = ''k1'', FilePath = ''cache/k1'',
                                             Metadata = md0\<lparr>Size := 3\<rparr>\<rparr>]) [''k1'']],
     writable = (\<lambda>p. True), logged = []\<rparr>"
  by (simp add: store1_def store0_def Set_def WriteFile_def path_k1 Let_def
        updateAccessList_def evictIfNeeded.simps overCeiling_def saveIndex_def fun_eq_iff)

lemma Get_state: "snd (Get c now key) = c"
  by (simp add: Get_def split: option.split)

lemma evictIfNeeded_frame:
  "maxBytes (evictIfNeeded c) = maxBytes c \<and> dir (evictIfNeeded c) = dir c \<and>
   ttl (evictIfNeeded c) = ttl c \<and> writable (evictIfNeeded c) = writable c"
proof (induction c rule: evictIfNeeded.induct)
  case (1 c)
  then show ?case
    by (subst (1 2 3 4) evictIfNeeded.simps) (simp add: evictHead_effect)
qed

lemma Set_frame:
  "maxBytes (snd (Set c key data md)) = maxBytes c \<and>
   dir (snd (Set c key data md)) = dir c \<and>
   ttl (snd (Set c key data md)) = ttl c \<and>
   writable (snd (Set c key data md)) = writable c"
proof (cases "fst (Set c key data md) = Returns None")
  case True
  show ?thesis
    by (simp add: Set_succeeds [OF True] saveIndex_def WriteFile_def Let_def logLine_def
          evictIfNeeded_frame split: prod.split option.split)
       (simp add: admitted_def)
next
  case False
  then show ?thesis
    unfolding Set_succeeds_iff
    by (auto simp: Set_def WriteFile_def Let_def split: option.split)
qed

lemma small1_eq:
  "small1 = \<lparr>dir = ''./cache'', ttl = 100, maxBytes = 4,
     index = [''k1'' \<mapsto> \<lparr>Key = ''k1'', FilePath = ''cache/k1'', Metadata = md0\<lparr>Size := 3\<rparr>\<rparr>],
     nilIndex = False, accessList = [''k1''], currentBytes = 3,
     files = [''cache/k1'' \<mapsto> Bytes [1, 2, 3], ''cache/k1.meta'' \<mapsto> MetaJSON (md0\<lparr>Size := 3\<rparr>),
              ''cache/index.json'' \<mapsto>
                IndexJSON (Some [''k1'' \<mapsto> Some \<lparr>Key = ''k1'', FilePath = ''cache/k1'',
                                             Metadata = md0\<lparr>Size := 3\<rparr>\<rparr>]) [''k1'']],
     writable = (\<lambda>p. True), logged = []\<rparr>"
  by (simp add: small1_def small0_def store0_def Set_def WriteFile_def path_k1 Let_def
        updateAccessList_def evictIfNeeded.simps overCeiling_def saveIndex_def fun_eq_iff)



section \<open>Lemmas on reading back what Set stored\<close>

lemma sizeSum_single:
  assumes "dom m \<subseteq> {k}" "m k = Some e"
  shows "sizeSum m = Size (Metadata e)"
proof -
  from assms have "dom m = {k}" by auto
  then show ?thesis using assms(2) by (simp add: sizeSum_def)
qed

lemma retains_evictHead:
  assumes "retains key entry data c" "overCeiling c" "plainName key" "CHR ''.'' \<notin> set key"
  shows "retains key entry data (evictHead c)"
proof -
  from assms(1) have al: "accessList c \<noteq> []" "last (accessList c) = key"
      "key \<notin> set (butlast (accessList c))"
    and inv: "totalMatches c" "listed c" "placed c"
    and ent: "index c key = Some entry" "files c (joinPath (dir c) key) = Some (Bytes data)"
      "\<not> maxBytes c <s Size (Metadata entry)"
    by (simp_all add: retains_def)
  obtain h t where ht: "accessList c = h # t"
    using al(1) by (cases "accessList c") auto
  have t: "t \<noteq> []"
  proof
    assume "t = []"
    with ht al(2) have "accessList c = [key]" by simp
    with inv(2) have "dom (index c) \<subseteq> {key}" by (simp add: listed_def)
    then have "sizeSum (index c) = Size (Metadata entry)" using ent(1) by (rule sizeSum_single)
    with inv(1) have "currentBytes c = Size (Metadata entry)" by (simp add: totalMatches_def)
    with assms(2) ent(3) show False by (simp add: overCeiling_def)
  qed
  with ht al have h: "h \<noteq> key" and last: "last t = key" and bl: "key \<notin> set (butlast t)"
    by auto
  have files: "files (evictHead c) (joinPath (dir c) key) = Some (Bytes data)"
  proof (cases "index c h")
    case None
    then show ?thesis using ent(2) ht by (simp add: evictHead_effect)
  next
    case (Some e)
    with inv(3) have "plainName h" "FilePath e = joinPath (dir c) h" by (simp_all add: placed_def)
    then show ?thesis using Some ent(2) ht h assms(3,4)
      by (simp add: evictHead_effect joinPath_inject joinPath_meta)
  qed
  have "placed (evictHead c)"
    using inv(3) by (auto simp: placed_def evictHead_effect split: if_splits)
  then show ?thesis
    using inv ent files t last bl h ht
    by (simp add: retains_def evictHead_totalMatches evictHead_listed evictHead_effect)
qed

lemma retains_evictIfNeeded:
  assumes "retains key entry data c" "plainName key" "CHR ''.'' \<notin> set key"
  shows "retains key entry data (evictIfNeeded c)"
  using assms
proof (induction c rule: evictIfNeeded.induct)
  case (1 c)
  then show ?case
    by (subst evictIfNeeded.simps) (simp add: retains_evictHead)
qed

lemma admitted_retains:
  assumes "totalMatches c" "listed c" "distinct (accessList c)" "placed c"
    "\<not> maxBytes c <s of_nat (length data)" "plainName key"
  shows "retains key \<lparr>Key = key, FilePath = joinPath (dir c) key,
            Metadata = md\<lparr>Size := of_nat (length data)\<rparr>\<rparr> data (admitted c key data md)"
proof -
  have "key \<notin> set (remove1 key (accessList c))"
    using assms(3) by simp
  moreover have "placed (admitted c key data md)"
    using assms(4,6) by (simp add: placed_def admitted_def)
  moreover have "files (admitted c key data md) (joinPath (dir c) key) = Some (Bytes data)"
    using joinPath_meta2 [OF assms(6), of "dir c"] by (simp add: admitted_def)
  ultimately show ?thesis
    using assms(1,2,5)
    by (simp add: retains_def admitted_totalMatches admitted_listed)
       (simp add: admitted_def)
qed

lemma ReadData_reads:
  assumes "index c key = Some e" "FilePath e \<noteq> joinPath (dir c) (key @ ''.meta'')"
  shows "fst (ReadData c now key) =
     (case ReadFile c (FilePath e) of Inl err \<Rightarrow> Inl ReadCacheFileFailed | Inr d \<Rightarrow> Inr d)"
  using assms
  by (simp add: ReadData_def Let_def updateAccessList_def saveMetadata_def WriteFile_def
        logLine_def ReadFile_def split: sum.split option.split content.split)

lemma small0_oversize:
  "fst (Set small0 ''k1'' [1, 2, 3, 4, 5] md0) = Returns None"
  "index (snd (Set small0 ''k1'' [1, 2, 3, 4, 5] md0)) ''k1'' = None"
proof -
  show s: "fst (Set small0 ''k1'' [1, 2, 3, 4, 5] md0) = Returns None"
    by (simp add: Set_succeeds_iff small0_def store0_def)
  have a: "admitted small0 ''k1'' [1, 2, 3, 4, 5] md0 =
      \<lparr>dir = ''./cache'', ttl = 100, maxBytes = 4,
       index = [''k1'' \<mapsto> \<lparr>Key = ''k1'', FilePath = ''cache/k1'', Metadata = md0\<lparr>Size := 5\<rparr>\<rparr>],
       nilIndex = False, accessList = [''k1''], currentBytes = 5,
       files = [''cache/k1'' \<mapsto> Bytes [1, 2, 3, 4, 5], ''cache/k1.meta'' \<mapsto> MetaJSON (md0\<lparr>Size := 5\<rparr>)],
       writable = (\<lambda>p. True), logged = []\<rparr>"
    by (simp add: small0_def store0_def admitted_def path_k1 entrySize_def)
  have "index (evictIfNeeded (admitted small0 ''k1'' [1, 2, 3, 4, 5] md0)) ''k1'' = None"
    by (simp add: a evictIfNeeded.simps overCeiling_def evictHead_def Remove_def logLine_def Let_def)
  then show "index (snd (Set small0 ''k1'' [1, 2, 3, 4, 5] md0)) ''k1'' = None"
    by (simp add: Set_succeeds_fields [OF s])
qed

lemma path_index_json: "joinPath ''./cache'' ''index.json.meta'' = ''cache/index.json.meta''"
  by (simp add: joinPath_cache plainName_def)

lemma index_json_key:
  "fst (Set store0 ''index.json'' [1, 2, 3] md0) = Returns None"
  "fst (ReadData (snd (Set store0 ''index.json'' [1, 2, 3] md0)) 1000 ''index.json'') \<noteq> Inr (Bytes [1, 2, 3])"
proof -
  show s: "fst (Set store0 ''index.json'' [1, 2, 3] md0) = Returns None"
    by (simp add: Set_succeeds_iff store0_def)
  let ?c = "snd (Set store0 ''index.json'' [1, 2, 3] md0)"
  let ?e = "\<lparr>Key = ''index.json'', FilePath = ''cache/index.json'', Metadata = md0\<lparr>Size := 3\<rparr>\<rparr>"
  have a: "evictIfNeeded (admitted store0 ''index.json'' [1, 2, 3] md0) = admitted store0 ''index.json'' [1, 2, 3] md0"
    by (simp add: evictIfNeeded.simps overCeiling_def admitted_def store0_def entrySize_def)
  have i: "index ?c ''index.json'' = Some ?e"
    by (simp add: Set_succeeds_fields [OF s] a) (simp add: admitted_def store0_def path_k1)
  have f: "\<exists>entries al. files ?c ''cache/index.json'' = Some (IndexJSON entries al)"
    by (simp add: Set_succeeds [OF s] a saveIndex_def WriteFile_def Let_def)
       (simp add: admitted_def store0_def path_k1)
  have "fst (ReadData ?c 1000 ''index.json'') =
      (case ReadFile ?c (FilePath ?e) of Inl err \<Rightarrow> Inl ReadCacheFileFailed | Inr d \<Rightarrow> Inr d)"
    using i by (rule ReadData_reads) (simp add: Set_frame store0_def path_k1 path_index_json)
  then show "fst (ReadData ?c 1000 ''index.json'') \<noteq> Inr (Bytes [1, 2, 3])"
    using f by (auto simp: ReadFile_def)
qed

section \<open>Lemmas on key derivation\<close>

lemma queryValue_eq:
  assumes "distinct (map fst q1)" "distinct (map fst q2)" "set q1 = set q2"
  shows "queryValue q1 = queryValue q2"
proof -
  have "map_of q1 = map_of q2"
    using assms by (simp add: map_of_inject_set)
  then show ?thesis by (simp add: queryValue_def fun_eq_iff)
qed

lemma sort_keys_eq:
  assumes "distinct (map fst q1)" "distinct (map fst q2)" "set q1 = set q2"
  shows "sort (map fst q1) = sort (map fst q2)"
proof (rule sorted_distinct_set_unique)
  show "set (sort (map fst q1)) = set (sort (map fst q2))"
    using assms(3) by simp
qed (simp_all add: assms)

lemma split_at_separator:
  assumes "c \<notin> set x" "c \<notin> set y" "x @ c # r = y @ c # s"
  shows "x = y \<and> r = s"
  using assms
proof (induction x arbitrary: y)
  case Nil
  then show ?case by (cases y) auto
next
  case (Cons a x)
  then show ?case by (cases y) auto
qed

lemma joinStrings_Cons:
  "joinStrings (x # xs) sep = (if xs = [] then x else x @ sep @ joinStrings xs sep)"
  by (cases xs) simp_all

lemma joinStrings_inject:
  assumes "\<forall>x\<in>set xs. c \<notin> set x" "\<forall>y\<in>set ys. c \<notin> set y" "xs \<noteq> []" "ys \<noteq> []"
    and "joinStrings xs [c] = joinStrings ys [c]"
  shows "xs = ys"
  using assms
proof (induction xs arbitrary: ys)
  case Nil
  then show ?case by simp
next
  case (Cons x xs)
  obtain y ys' where ys: "ys = y # ys'"
    using Cons.prems(4) by (cases ys) auto
  have cx: "c \<notin> set x" and cy: "c \<notin> set y"
    using Cons.prems(1,2) ys by auto
  show ?case
  proof (cases "xs = []")
    case True
    show ?thesis
    proof (cases "ys' = []")
      case True
      with \<open>xs = []\<close> Cons.prems(5) ys show ?thesis by simp
    next
      case False
      with \<open>xs = []\<close> Cons.prems(5) ys have "x = y @ c # joinStrings ys' [c]"
        by (simp add: joinStrings_Cons)
      with cx show ?thesis by auto
    qed
  next
    case False
    show ?thesis
    proof (cases "ys' = []")
      case True
      with False Cons.prems(5) ys have "y = x @ c # joinStrings xs [c]"
        by (simp add: joinStrings_Cons)
      with cy show ?thesis by auto
    next
      case ne: False
      with False Cons.prems(5) ys
      have "x @ c # joinStrings xs [c] = y @ c # joinStrings ys' [c]"
        by (simp add: joinStrings_Cons)
      then have "x = y \<and> joinStrings xs [c] = joinStrings ys' [c]"
        by (rule split_at_separator [OF cx cy])
      then have "x = y" "joinStrings xs [c] = joinStrings ys' [c]"
        by simp_all
      moreover have "xs = ys'"
        using Cons.prems(1,2) ys False ne \<open>joinStrings xs [c] = joinStrings ys' [c]\<close>
        by (intro Cons.IH) auto
      ultimately show ?thesis using ys by simp
    qed
  qed
qed

lemma params_inject:
  assumes "\<forall>k\<in>set ks1. c \<notin> set k" "\<forall>k\<in>set ks2. c \<notin> set k"
    and "map (\<lambda>k. k @ [c] @ f k) ks1 = map (\<lambda>k. k @ [c] @ g k) ks2"
  shows "ks1 = ks2 \<and> (\<forall>k\<in>set ks1. f k = g k)"
  using assms
proof (induction ks1 arbitrary: ks2)
  case Nil
  then show ?case by simp
next
  case (Cons k ks1)
  then obtain k' ks2' where ks2: "ks2 = k' # ks2'"
    by (cases ks2) auto
  with Cons.prems have eq: "k @ c # f k = k' @ c # g k'" and ck: "c \<notin> set k" "c \<notin> set k'"
    by auto
  have "k = k' \<and> f k = g k'"
    using ck eq by (rule split_at_separator)
  then have "k = k'" "f k = g k"
    by auto
  moreover have "ks1 = ks2' \<and> (\<forall>k\<in>set ks1. f k = g k)"
    using Cons.prems ks2 by (intro Cons.IH) auto
  ultimately show ?case using ks2 by simp
qed

lemma fullURL_example:
  "fullURL ''/avatar/test'' [(''s'', ''80''), (''d'', ''identicon'')] = ''/avatar/test?d=identicon?s=80''"
  by (simp add: fullURL_def queryValue_def)

lemma fullURL_parts:
  "fullURL path query =
     joinStrings (path # map (\<lambda>k. k @ ''='' @ queryValue query k) (sort (map fst query))) ''?''"
  by (simp add: fullURL_def)

lemma queryValue_member:
  assumes "distinct (map fst q)"
  shows "(k, v) \<in> set q \<longleftrightarrow> k \<in> fst ` set q \<and> queryValue q k = v"
proof
  assume "(k, v) \<in> set q"
  with assms have "map_of q k = Some v" by simp
  with \<open>(k, v) \<in> set q\<close> show "k \<in> fst ` set q \<and> queryValue q k = v"
    by (force simp: queryValue_def)
next
  assume a: "k \<in> fst ` set q \<and> queryValue q k = v"
  then obtain v' where v': "(k, v') \<in> set q" by auto
  with assms have "map_of q k = Some v'" by simp
  with a v' show "(k, v) \<in> set q" by (simp add: queryValue_def)
qed

section \<open>Lemmas on the handler\<close>

lemma CheckConditional_iff:
  "CheckConditional parse c now key req \<longleftrightarrow>
     (case index c key of
        None \<Rightarrow> False
      | Some entry \<Rightarrow> now - CreatedAt (Metadata entry) \<le> ttl c \<and> validatorsMatch parse entry req)"
  by (auto simp: CheckConditional_def validatorsMatch_def carries_def Let_def
        split: option.split)


lemma saveMetadata_files:
  "files (snd (saveMetadata c key md)) =
     (if writable c (joinPath (dir c) (key @ ''.meta''))
      then (files c)(joinPath (dir c) (key @ ''.meta'') \<mapsto> MetaJSON md) else files c)"
  "dir (snd (saveMetadata c key md)) = dir c"
  "writable (snd (saveMetadata c key md)) = writable c"
  "fst (saveMetadata c key md) = None \<longleftrightarrow> writable c (joinPath (dir c) (key @ ''.meta''))"
  by (simp_all add: saveMetadata_def WriteFile_def Let_def)

lemma UpdateMetadata_state:
  assumes "index c key = Some e"
  shows "index (snd (UpdateMetadata c key md)) = (index c)(key \<mapsto> e\<lparr>Metadata := md\<rparr>)"
    "accessList (snd (UpdateMetadata c key md)) = accessList c"
    "currentBytes (snd (UpdateMetadata c key md)) = currentBytes c"
    "files (snd (UpdateMetadata c key md)) =
       (if writable c (joinPath (dir c) (key @ ''.meta''))
        then (files c)(joinPath (dir c) (key @ ''.meta'') \<mapsto> MetaJSON md) else files c)"
    "dir (snd (UpdateMetadata c key md)) = dir c"
    "writable (snd (UpdateMetadata c key md)) = writable c"
    "fst (UpdateMetadata c key md) = None \<longleftrightarrow> writable c (joinPath (dir c) (key @ ''.meta''))"
  using assms
  by (simp_all add: UpdateMetadata_def saveMetadata_fields saveMetadata_files)

lemma ReadData_state:
  assumes "index c key = Some e"
  shows "index (snd (ReadData c now key)) =
       (index c)(key \<mapsto> e\<lparr>Metadata := (Metadata e)\<lparr>LastAccessedAt := now\<rparr>\<rparr>)"
    "accessList (snd (ReadData c now key)) = remove1 key (accessList c) @ [key]"
    "currentBytes (snd (ReadData c now key)) = currentBytes c"
    "files (snd (ReadData c now key)) =
       (if writable c (joinPath (dir c) (key @ ''.meta''))
        then (files c)(joinPath (dir c) (key @ ''.meta'') \<mapsto>
               MetaJSON ((Metadata e)\<lparr>LastAccessedAt := now\<rparr>))
        else files c)"
  using assms
  by (auto simp: ReadData_def Let_def updateAccessList_def saveMetadata_def WriteFile_def
        logLine_def split: sum.split)

lemma nilIndex_kept:
  "nilIndex (snd (ReadData c now key)) = nilIndex c"
  "nilIndex (snd (UpdateMetadata c key md)) = nilIndex c"
  by (auto simp: ReadData_def UpdateMetadata_def Let_def updateAccessList_def saveMetadata_def
        WriteFile_def logLine_def split: option.split sum.split)













lemma key0: "cacheKeyOf env0 req0 = ''k1''" "cacheKeyOf env1 req0 = ''k1''"
  by (simp_all add: cacheKeyOf_def env0_def env1_def GenerateKey_def)

section \<open>The invariant of the store is preserved\<close>

lemma evictHead_wellFormed: "wellFormed c \<Longrightarrow> wellFormed (evictHead c)"
  by (auto simp: wellFormed_def evictHead_totalMatches evictHead_listed evictHead_effect
        placed_def distinct_tl split: if_splits)

lemma evictIfNeeded_wellFormed: "wellFormed c \<Longrightarrow> wellFormed (evictIfNeeded c)"
proof (induction c rule: evictIfNeeded.induct)
  case (1 c)
  then show ?case
    by (subst evictIfNeeded.simps) (simp add: evictHead_wellFormed)
qed

lemma admitted_wellFormed:
  "wellFormed c \<Longrightarrow> plainName key \<Longrightarrow> wellFormed (admitted c key data md)"
  unfolding wellFormed_def
  by (intro conjI admitted_totalMatches admitted_listed)
     (auto simp: admitted_def placed_def)

lemma Set_wellFormed:
  assumes "wellFormed c" "plainName key"
  shows "wellFormed (snd (Set c key data md))"
proof (cases "fst (Set c key data md) = Returns None")
  case True
  have "wellFormed (evictIfNeeded (admitted c key data md))"
    using assms by (simp add: admitted_wellFormed evictIfNeeded_wellFormed)
  then show ?thesis
    by (simp add: wellFormed_def totalMatches_def listed_def placed_def Set_nilIndex
          Set_succeeds_fields [OF True] Set_frame evictIfNeeded_frame evictIfNeeded_nilIndex)
       (simp add: admitted_def)
next
  case False
  then show ?thesis using assms
    by (simp add: wellFormed_def totalMatches_def listed_def placed_def Set_fails Set_frame)
qed

lemma ReadData_wellFormed:
  assumes "wellFormed c"
  shows "wellFormed (snd (ReadData c now key))"
proof (cases "index c key")
  case None
  then show ?thesis using assms by (simp add: ReadData_def)
next
  case (Some e)
  have "dir (snd (ReadData c now key)) = dir c"
    using Some
    by (auto simp: ReadData_def Let_def updateAccessList_def saveMetadata_def WriteFile_def
          logLine_def split: sum.split)
  then show ?thesis
    using assms Some ReadData_totalMatches [of c now key]
    by (auto simp: wellFormed_def listed_def placed_def ReadData_state [OF Some] set_touch
          nilIndex_kept simp del: set_append)
qed

lemma UpdateMetadata_wellFormed:
  assumes "wellFormed c" "keepsSize c key md"
  shows "wellFormed (snd (UpdateMetadata c key md))"
proof (cases "index c key")
  case None
  then show ?thesis using assms by (simp add: UpdateMetadata_def)
next
  case (Some e)
  show ?thesis
    using assms Some UpdateMetadata_totalMatches [of c key md]
    by (auto simp: wellFormed_def listed_def placed_def UpdateMetadata_state [OF Some]
          nilIndex_kept)
qed

lemma New_wellFormed:
  assumes "New unmarshal fs wr lg d t m = Returns (Inr c)" "fs (joinPath d ''index.json'') = None"
  shows "wellFormed c"
  using assms
  by (auto simp: New_def loadIndex_def ReadFile_def wellFormed_def totalMatches_def
        listed_def placed_def sizeSum_def split: if_splits)

section \<open>Lemmas on loading the index and on concrete stores\<close>





lemma store1_overwrite:
  "fst (Set store1 ''k1'' [4, 5] md0) = Returns None"
  "index (snd (Set store1 ''k1'' [4, 5] md0)) =
     [''k1'' \<mapsto> \<lparr>Key = ''k1'', FilePath = ''cache/k1'', Metadata = md0\<lparr>Size := 2\<rparr>\<rparr>]"
  "currentBytes (snd (Set store1 ''k1'' [4, 5] md0)) = 2"
  "dir (snd (Set store1 ''k1'' [4, 5] md0)) = ''./cache''"
  "writable (snd (Set store1 ''k1'' [4, 5] md0)) = (\<lambda>p. True)"
proof -
  show s: "fst (Set store1 ''k1'' [4, 5] md0) = Returns None"
    by (simp add: Set_succeeds_iff store1_eq)
  have a: "evictIfNeeded (admitted store1 ''k1'' [4, 5] md0) = admitted store1 ''k1'' [4, 5] md0"
    by (simp add: evictIfNeeded.simps overCeiling_def admitted_def store1_eq entrySize_def
          word_sless_alt)
  show "index (snd (Set store1 ''k1'' [4, 5] md0)) =
     [''k1'' \<mapsto> \<lparr>Key = ''k1'', FilePath = ''cache/k1'', Metadata = md0\<lparr>Size := 2\<rparr>\<rparr>]"
    by (simp add: Set_succeeds_fields [OF s] a) (simp add: admitted_def store1_eq path_k1)
  show "currentBytes (snd (Set store1 ''k1'' [4, 5] md0)) = 2"
    by (simp add: Set_succeeds_fields [OF s] a) (simp add: admitted_def store1_eq entrySize_def)
  show "dir (snd (Set store1 ''k1'' [4, 5] md0)) = ''./cache''"
    "writable (snd (Set store1 ''k1'' [4, 5] md0)) = (\<lambda>p. True)"
    by (simp_all add: Set_frame store1_eq)
qed



lemma path_slash: "joinPath ''./cache'' ''/k1'' = ''cache/k1''"
  "joinPath ''./cache'' ''/k1.meta'' = ''cache/k1.meta''"
  by (simp_all add: joinPath_def Clean_def cleanStep_def Let_def)

lemma Set_succeeds_files:
  assumes "fst (Set c key data md) = Returns None" "p \<noteq> joinPath (dir c) ''index.json''"
  shows "files (snd (Set c key data md)) p = files (evictIfNeeded (admitted c key data md)) p"
proof -
  have "dir (evictIfNeeded (admitted c key data md)) = dir c"
    by (simp add: evictIfNeeded_frame admitted_def)
  then show ?thesis
    using assms(2)
    by (simp add: Set_succeeds [OF assms(1)] saveIndex_def WriteFile_def Let_def logLine_def)
qed

lemma slash_key:
  "fst (Set small1 ''/k1'' [4, 5] md0) = Returns None"
  "index (snd (Set small1 ''/k1'' [4, 5] md0)) ''/k1'' =
     Some \<lparr>Key = ''/k1'', FilePath = ''cache/k1'', Metadata = md0\<lparr>Size := 2\<rparr>\<rparr>"
  "fst (ReadData (snd (Set small1 ''/k1'' [4, 5] md0)) 1050 ''/k1'') = Inl ReadCacheFileFailed"
proof -
  let ?c = "snd (Set small1 ''/k1'' [4, 5] md0)"
  let ?e = "\<lparr>Key = ''/k1'', FilePath = ''cache/k1'', Metadata = md0\<lparr>Size := 2\<rparr>\<rparr>"
  show s: "fst (Set small1 ''/k1'' [4, 5] md0) = Returns None"
    by (simp add: Set_succeeds_iff small1_eq)
  have a: "admitted small1 ''/k1'' [4, 5] md0 = \<lparr>dir = ''./cache'', ttl = 100, maxBytes = 4,
     index = [''k1'' \<mapsto> \<lparr>Key = ''k1'', FilePath = ''cache/k1'', Metadata = md0\<lparr>Size := 3\<rparr>\<rparr>,
              ''/k1'' \<mapsto> ?e],
     nilIndex = False, accessList = [''k1'', ''/k1''], currentBytes = 5,
     files = [''cache/k1'' \<mapsto> Bytes [1, 2, 3], ''cache/k1.meta'' \<mapsto> MetaJSON (md0\<lparr>Size := 3\<rparr>),
              ''cache/index.json'' \<mapsto>
                IndexJSON (Some [''k1'' \<mapsto> Some \<lparr>Key = ''k1'', FilePath = ''cache/k1'',
                                             Metadata = md0\<lparr>Size := 3\<rparr>\<rparr>]) [''k1''],
              ''cache/k1'' \<mapsto> Bytes [4, 5], ''cache/k1.meta'' \<mapsto> MetaJSON (md0\<lparr>Size := 2\<rparr>)],
     writable = (\<lambda>p. True), logged = []\<rparr>"
    by (simp add: small1_eq admitted_def path_slash entrySize_def)
  have b: "evictIfNeeded (admitted small1 ''/k1'' [4, 5] md0) = evictHead (admitted small1 ''/k1'' [4, 5] md0)"
    "index (evictHead (admitted small1 ''/k1'' [4, 5] md0)) ''/k1'' = Some ?e"
    "files (evictHead (admitted small1 ''/k1'' [4, 5] md0)) ''cache/k1'' = None"
    by (simp_all add: a evictIfNeeded.simps overCeiling_def evictHead_def Remove_def logLine_def
          Let_def)
  show i: "index ?c ''/k1'' = Some ?e"
    by (simp add: Set_succeeds_fields [OF s] b)
  have "''cache/k1'' \<noteq> joinPath (dir small1) ''index.json''"
    by (simp add: small1_eq path_k1)
  with s have "files ?c ''cache/k1'' = files (evictIfNeeded (admitted small1 ''/k1'' [4, 5] md0)) ''cache/k1''"
    by (rule Set_succeeds_files)
  then have f: "files ?c ''cache/k1'' = None"
    by (simp add: b)
  have "fst (ReadData ?c 1050 ''/k1'') =
      (case ReadFile ?c (FilePath ?e) of Inl err \<Rightarrow> Inl ReadCacheFileFailed | Inr d \<Rightarrow> Inr d)"
    using i by (rule ReadData_reads) (simp add: Set_frame small1_eq path_slash)
  then show "fst (ReadData ?c 1050 ''/k1'') = Inl ReadCacheFileFailed"
    using f by (simp add: ReadFile_def)
qed

section \<open>Properties of the cache store\<close>

text \<open>
  Claim C1. The running total is meant to equal the sum of the sizes of the indexed
  entries whenever a caller can observe the store. \<^verbatim>\<open>Set\<close> (which takes the previous
  size of the key off before it adds the new one), the eviction loop (which takes off
  the size of each entry it removes) and \<^verbatim>\<open>ReadData\<close> keep the equality, as the lemmas
  on the running total show. \<^verbatim>\<open>UpdateMetadata\<close> does not: it replaces the whole
  metadata record, size included, and leaves the total alone. In the store that holds
  one entry of three bytes, \<^verbatim>\<open>UpdateMetadata\<close> with a record of size 0 leaves a total of
  3 over entries whose sizes sum to 0. The call the handler makes breaks the equality as
  well when another request stores the key in between: the handler reads the entry
  (size 3) with \<^verbatim>\<open>Get\<close>, a \<^verbatim>\<open>Set\<close> of two bytes under the same key follows, and the
  handler then passes the metadata it has read, with new times and the old size, to
  \<^verbatim>\<open>UpdateMetadata\<close>: the total is 2 and the sizes sum to 3.
\<close>

theorem UpdateMetadata_breaks_total:
  "totalMatches store1 \<and> currentBytes store1 = 3 \<and>
   currentBytes (snd (UpdateMetadata store1 ''k1'' md0)) = 3 \<and>
   index (snd (UpdateMetadata store1 ''k1'' md0)) = [''k1'' \<mapsto> entry1\<lparr>Metadata := md0\<rparr>] \<and>
   Size md0 = 0 \<and>
   sizeSum (index (snd (UpdateMetadata store1 ''k1'' md0))) = 0 \<and>
   \<not> totalMatches (snd (UpdateMetadata store1 ''k1'' md0)) \<and>
   fst (Get store1 2000 ''k1'') = (Some entry1, False) \<and>
   fst (Set store1 ''k1'' [4, 5] md0) = Returns None \<and>
   totalMatches (snd (Set store1 ''k1'' [4, 5] md0)) \<and>
   currentBytes (snd (UpdateMetadata (snd (Set store1 ''k1'' [4, 5] md0)) ''k1''
      ((Metadata entry1)\<lparr>CreatedAt := 2000, LastAccessedAt := 2000\<rparr>))) = 2 \<and>
   index (snd (UpdateMetadata (snd (Set store1 ''k1'' [4, 5] md0)) ''k1''
      ((Metadata entry1)\<lparr>CreatedAt := 2000, LastAccessedAt := 2000\<rparr>))) =
     [''k1'' \<mapsto> entry1\<lparr>Metadata := (Metadata entry1)\<lparr>CreatedAt := 2000, LastAccessedAt := 2000\<rparr>\<rparr>] \<and>
   Size ((Metadata entry1)\<lparr>CreatedAt := 2000, LastAccessedAt := 2000\<rparr>) = 3 \<and>
   sizeSum (index (snd (UpdateMetadata (snd (Set store1 ''k1'' [4, 5] md0)) ''k1''
      ((Metadata entry1)\<lparr>CreatedAt := 2000, LastAccessedAt := 2000\<rparr>)))) = 3 \<and>
   \<not> totalMatches (snd (UpdateMetadata (snd (Set store1 ''k1'' [4, 5] md0)) ''k1''
      ((Metadata entry1)\<lparr>CreatedAt := 2000, LastAccessedAt := 2000\<rparr>)))"
proof -
  let ?c2 = "snd (Set store1 ''k1'' [4, 5] md0)"
  let ?md = "(Metadata entry1)\<lparr>CreatedAt := 2000, LastAccessedAt := 2000\<rparr>"
  have e: "index store1 ''k1'' = Some entry1"
    by (simp add: store1_eq entry1_def)
  have e2: "index ?c2 ''k1'' = Some \<lparr>Key = ''k1'', FilePath = ''cache/k1'', Metadata = md0\<lparr>Size := 2\<rparr>\<rparr>"
    by (simp add: store1_overwrite)
  have 1: "totalMatches store1" "currentBytes store1 = 3"
    by (simp_all add: store1_eq totalMatches_def sizeSum_def)
  have i1: "index (snd (UpdateMetadata store1 ''k1'' md0)) = [''k1'' \<mapsto> entry1\<lparr>Metadata := md0\<rparr>]"
    by (simp add: UpdateMetadata_state [OF e]) (simp add: store1_eq entry1_def)
  have 2: "currentBytes (snd (UpdateMetadata store1 ''k1'' md0)) = 3" "Size md0 = 0"
    "sizeSum (index (snd (UpdateMetadata store1 ''k1'' md0))) = 0"
    by (simp_all add: i1 sizeSum_def UpdateMetadata_state [OF e])
       (simp_all add: store1_eq md0_def)
  have 3: "fst (Get store1 2000 ''k1'') = (Some entry1, False)"
    by (simp add: Get_def e) (simp add: store1_eq entry1_def md0_def)
  have 4: "totalMatches ?c2"
    by (simp add: totalMatches_def store1_overwrite sizeSum_def)
  have i5: "index (snd (UpdateMetadata ?c2 ''k1'' ?md)) = [''k1'' \<mapsto> entry1\<lparr>Metadata := ?md\<rparr>]"
    by (simp add: UpdateMetadata_state [OF e2] store1_overwrite) (simp add: entry1_def)
  have 5: "currentBytes (snd (UpdateMetadata ?c2 ''k1'' ?md)) = 2" "Size ?md = 3"
    "sizeSum (index (snd (UpdateMetadata ?c2 ''k1'' ?md))) = 3"
    by (simp_all add: i5 sizeSum_def UpdateMetadata_state [OF e2] store1_overwrite)
       (simp_all add: entry1_def)
  show ?thesis
    using 1 2 3 4 5 i1 i5 store1_overwrite(1) by (simp add: totalMatches_def)
qed




text \<open>
  Claim C2. \<^verbatim>\<open>Get\<close> answers "not found" (no entry, not fresh) exactly for the keys the
  index does not hold. For an indexed key it returns the indexed entry, and the entry
  is reported fresh exactly when the time elapsed since its creation is at most the
  TTL; a stale entry is returned all the same, with the flag false.
\<close>

theorem Get_found_iff_indexed:
  "(fst (fst (Get c now key)) = None \<longleftrightarrow> index c key = None) \<and>
   fst (Get c now key) =
     (case index c key of
        None \<Rightarrow> (None, False)
      | Some entry \<Rightarrow> (Some entry, now - CreatedAt (Metadata entry) \<le> ttl c))"
  by (simp add: Get_def split: option.split)



text \<open>
  Claim C9, as amended. Let the store satisfy its invariant, the key be a plain file
  name without a dot (as every derived key) and the payload be no longer than the
  ceiling. Then after a successful \<^verbatim>\<open>Set\<close> the key's entry is the one \<^verbatim>\<open>Get\<close>
  returns, with the size recorded as the length of the payload, fresh exactly when the
  creation time in the metadata handed to \<^verbatim>\<open>Set\<close> is within the TTL; and \<^verbatim>\<open>ReadData\<close>
  returns exactly the payload.
\<close>

theorem Set_then_Get_and_ReadData:
  assumes "wellFormed c"
    and "plainName key" "CHR ''.'' \<notin> set key"
    and "\<not> maxBytes c <s of_nat (length data)"
    and "fst (Set c key data md) = Returns None"
  shows "fst (Get (snd (Set c key data md)) now key) =
           (Some \<lparr>Key = key, FilePath = joinPath (dir c) key,
                   Metadata = md\<lparr>Size := of_nat (length data)\<rparr>\<rparr>,
            now - CreatedAt md \<le> ttl c) \<and>
         fst (ReadData (snd (Set c key data md)) now key) = Inr (Bytes data)"
proof -
  let ?entry = "\<lparr>Key = key, FilePath = joinPath (dir c) key,
                  Metadata = md\<lparr>Size := of_nat (length data)\<rparr>\<rparr>"
  let ?a = "evictIfNeeded (admitted c key data md)"
  let ?c = "snd (Set c key data md)"
  have "retains key ?entry data ?a"
    using assms(1-4) by (intro retains_evictIfNeeded admitted_retains) (simp_all add: wellFormed_def)
  then have a: "index ?a key = Some ?entry" "files ?a (joinPath (dir ?a) key) = Some (Bytes data)"
    by (simp_all add: retains_def)
  have dir: "dir ?a = dir c"
    by (simp add: evictIfNeeded_frame admitted_def)
  have index: "index ?c key = Some ?entry"
    using a(1) by (simp add: Set_succeeds_fields [OF assms(5)])
  have "files ?c (joinPath (dir c) key) = files ?a (joinPath (dir c) key)"
    using assms(5) joinPath_index [OF assms(2,3), of "dir c"] by (rule Set_succeeds_files)
  with a(2) dir have files: "files ?c (joinPath (dir c) key) = Some (Bytes data)"
    by simp
  have get: "fst (Get ?c now key) = (Some ?entry, now - CreatedAt md \<le> ttl c)"
    using index by (simp add: Get_def Set_frame)
  have "fst (ReadData ?c now key) =
      (case ReadFile ?c (FilePath ?entry) of Inl err \<Rightarrow> Inl ReadCacheFileFailed | Inr d \<Rightarrow> Inr d)"
    using index by (rule ReadData_reads) (simp add: Set_frame joinPath_meta2 [OF assms(2)])
  with files have "fst (ReadData ?c now key) = Inr (Bytes data)"
    by (simp add: ReadFile_def)
  with get show ?thesis by simp
qed

theorem Set_then_Get_and_ReadData_witness:
  "wellFormed small1 \<and> plainName ''k2'' \<and>
   CHR ''.'' \<notin> set ''k2'' \<and> \<not> maxBytes small1 <s of_nat (length [4, 5 :: 8 word]) \<and>
   fst (Set small1 ''k2'' [4, 5] md0) = Returns None \<and>
   fst (Get (snd (Set small1 ''k2'' [4, 5] md0)) 1050 ''k2'') =
     (Some \<lparr>Key = ''k2'', FilePath = ''cache/k2'', Metadata = md0\<lparr>Size := 2\<rparr>\<rparr>, True) \<and>
   fst (ReadData (snd (Set small1 ''k2'' [4, 5] md0)) 1050 ''k2'') = Inr (Bytes [4, 5])"
proof -
  have wf: "wellFormed small1"
    by (simp add: small1_eq wellFormed_def totalMatches_def sizeSum_def listed_def placed_def
          path_k1 plainName_def)
  have plain: "plainName ''k2''"
    by (simp add: plainName_def)
  have key: "CHR ''.'' \<notin> set ''k2''"
    by simp
  have fits: "\<not> maxBytes small1 <s of_nat (length [4, 5 :: 8 word])"
    by (simp add: small1_eq)
  have success: "fst (Set small1 ''k2'' [4, 5] md0) = Returns None"
    by (simp add: Set_succeeds_iff small1_eq)
  have "dir small1 = ''./cache''" "ttl small1 = 100" "CreatedAt md0 = 1000"
    by (simp_all add: small1_eq md0_def)
  then show ?thesis
    using Set_then_Get_and_ReadData [OF wf plain key fits success, of 1050]
      wf plain fits success
    by (simp add: path_k1)
qed

text \<open>
  The claim as it was stated fails in several ways. A payload of five bytes under a
  ceiling of four is stored and evicted by the same \<^verbatim>\<open>Set\<close>, which returns no error:
  \<^verbatim>\<open>Get\<close> then finds nothing and \<^verbatim>\<open>ReadData\<close> fails. \<^verbatim>\<open>Set\<close> keeps the creation time
  it is given: with a creation time 1000 before the clock and a TTL of 100 the entry is
  stale as soon as it is stored. A key that names one of the store's own files is
  overwritten: under the key \<^verbatim>\<open>index.json\<close> the artifact is replaced by the index
  document before \<^verbatim>\<open>Set\<close> returns. And two keys can name one file: with \<^verbatim>\<open>k1\<close> stored
  under a ceiling of four, \<^verbatim>\<open>Set\<close> of two bytes under the key \<^verbatim>\<open>/k1\<close> writes the file of
  \<^verbatim>\<open>k1\<close>, evicts \<^verbatim>\<open>k1\<close> and with it that file, and \<^verbatim>\<open>ReadData\<close> of \<^verbatim>\<open>/k1\<close> fails.
\<close>

theorem Set_then_Get_not_fresh:
  "fst (Set small0 ''k1'' [1, 2, 3, 4, 5] md0) = Returns None \<and>
   fst (Get (snd (Set small0 ''k1'' [1, 2, 3, 4, 5] md0)) 1000 ''k1'') = (None, False) \<and>
   fst (ReadData (snd (Set small0 ''k1'' [1, 2, 3, 4, 5] md0)) 1000 ''k1'') = Inl EntryNotFound \<and>
   fst (Set store0 ''k1'' [1, 2, 3] md0) = Returns None \<and>
   snd (fst (Get (snd (Set store0 ''k1'' [1, 2, 3] md0)) 2000 ''k1'')) = False \<and>
   fst (Set store0 ''index.json'' [1, 2, 3] md0) = Returns None \<and>
   fst (ReadData (snd (Set store0 ''index.json'' [1, 2, 3] md0)) 1000 ''index.json'') \<noteq>
     Inr (Bytes [1, 2, 3]) \<and>
   small1 = snd (Set small0 ''k1'' [1, 2, 3] md0) \<and>
   fst (Set small1 ''/k1'' [4, 5] md0) = Returns None \<and>
   fst (ReadData (snd (Set small1 ''/k1'' [4, 5] md0)) 1050 ''/k1'') = Inl ReadCacheFileFailed"
proof -
  have "fst (Set store0 ''k1'' [1, 2, 3] md0) = Returns None"
    by (simp add: Set_succeeds_iff store0_def)
  moreover have "snd (fst (Get (snd (Set store0 ''k1'' [1, 2, 3] md0)) 2000 ''k1'')) = False"
    using store1_eq by (simp add: store1_def Get_def md0_def)
  ultimately show ?thesis
    using index_json_key slash_key(1,3)
    by (simp add: small0_oversize Get_def ReadData_def small1_def)
qed

text \<open>
  Claim C10. \<^verbatim>\<open>Get\<close> returns the store as it found it, in every component. A read
  with \<^verbatim>\<open>ReadData\<close> of an indexed key is what moves the key to the tail of the recency
  list and stamps the entry with the time of the read; on a key that is not indexed it
  leaves the recency list alone.
\<close>

theorem Get_leaves_store_unchanged:
  "snd (Get c now key) = c \<and>
   accessList (snd (ReadData c now key)) =
     (if index c key = None then accessList c else remove1 key (accessList c) @ [key]) \<and>
   map_option (\<lambda>e. LastAccessedAt (Metadata e)) (index (snd (ReadData c now key)) key) =
     map_option (\<lambda>e. now) (index c key)"
  by (simp add: Get_def ReadData_def updateAccessList_def saveMetadata_def WriteFile_def
        logLine_def Let_def split: option.split sum.split)

section \<open>Properties of key derivation\<close>

text \<open>
  Claim C7. The derived key depends on the path and on the set of (name, value) pairs
  only: two enumerations of the same map, in whatever order, give the same canonical
  string and the same key.
\<close>

theorem GenerateKey_order_invariant:
  assumes "distinct (map fst q1)" "distinct (map fst q2)" "set q1 = set q2"
  shows "fullURL path q1 = fullURL path q2 \<and> GenerateKey h path q1 = GenerateKey h path q2"
  by (simp add: GenerateKey_def fullURL_def queryValue_eq [OF assms] sort_keys_eq [OF assms])

theorem GenerateKey_order_invariant_witness:
  "distinct (map fst [(''d'', ''identicon''), (''s'', ''80'')]) \<and>
   distinct (map fst [(''s'', ''80''), (''d'', ''identicon'')]) \<and>
   set [(''d'', ''identicon''), (''s'', ''80'')] = set [(''s'', ''80''), (''d'', ''identicon'')] \<and>
   fullURL ''/avatar/test'' [(''s'', ''80''), (''d'', ''identicon'')] = ''/avatar/test?d=identicon?s=80'' \<and>
   GenerateKey (\<lambda>s. s) ''/avatar/test'' [(''d'', ''identicon''), (''s'', ''80'')] =
   GenerateKey (\<lambda>s. s) ''/avatar/test'' [(''s'', ''80''), (''d'', ''identicon'')]"
proof -
  have d1: "distinct (map fst [(''d'', ''identicon''), (''s'', ''80'')])"
    by simp
  have d2: "distinct (map fst [(''s'', ''80''), (''d'', ''identicon'')])"
    by simp
  have s: "set [(''d'', ''identicon''), (''s'', ''80'')] = set [(''s'', ''80''), (''d'', ''identicon'')]"
    by (simp add: insert_commute)
  from GenerateKey_order_invariant [OF d1 d2 s, of "''/avatar/test''" "\<lambda>s. s"]
  have "GenerateKey (\<lambda>s. s) ''/avatar/test'' [(''d'', ''identicon''), (''s'', ''80'')] =
        GenerateKey (\<lambda>s. s) ''/avatar/test'' [(''s'', ''80''), (''d'', ''identicon'')]"
    by (rule conjunct2)
  with d1 d2 s fullURL_example show ?thesis
    by (intro conjI)
qed

text \<open>
  Claim C8, as amended. Among the paths and queries that are free of the separators
  (no question mark in the path, the names or the values, no equals sign in a name),
  two different pairs of a path and a parameter map have different canonical strings,
  and different keys under a digest without collisions.
\<close>

theorem fullURL_injective_without_separators:
  assumes "unambiguous p1 q1" "unambiguous p2 q2" "p1 \<noteq> p2 \<or> set q1 \<noteq> set q2"
  shows "fullURL p1 q1 \<noteq> fullURL p2 q2 \<and>
         (inj h \<longrightarrow> GenerateKey h p1 q1 \<noteq> GenerateKey h p2 q2)"
proof -
  let ?f1 = "\<lambda>k. k @ ''='' @ queryValue q1 k" and ?f2 = "\<lambda>k. k @ ''='' @ queryValue q2 k"
  let ?ks1 = "sort (map fst q1)" and ?ks2 = "sort (map fst q2)"
  have d: "distinct (map fst q1)" "distinct (map fst q2)"
    using assms(1,2) by (simp_all add: unambiguous_def)
  have "fullURL p1 q1 \<noteq> fullURL p2 q2"
  proof
    assume eq: "fullURL p1 q1 = fullURL p2 q2"
    have "\<forall>x\<in>set (p1 # map ?f1 ?ks1). CHR ''?'' \<notin> set x"
    proof
      fix x assume "x \<in> set (p1 # map ?f1 ?ks1)"
      then consider "x = p1" | k where "k \<in> fst ` set q1" "x = ?f1 k" by auto
      then show "CHR ''?'' \<notin> set x"
      proof cases
        case 1
        then show ?thesis using assms(1) by (simp add: unambiguous_def)
      next
        case 2
        then obtain v where "(k, v) \<in> set q1" by auto
        with d(1) have "(k, queryValue q1 k) \<in> set q1"
          using queryValue_member [OF d(1)] by auto
        with assms(1) 2 show ?thesis by (auto simp: unambiguous_def)
      qed
    qed
    moreover have "\<forall>x\<in>set (p2 # map ?f2 ?ks2). CHR ''?'' \<notin> set x"
    proof
      fix x assume "x \<in> set (p2 # map ?f2 ?ks2)"
      then consider "x = p2" | k where "k \<in> fst ` set q2" "x = ?f2 k" by auto
      then show "CHR ''?'' \<notin> set x"
      proof cases
        case 1
        then show ?thesis using assms(2) by (simp add: unambiguous_def)
      next
        case 2
        then obtain v where "(k, v) \<in> set q2" by auto
        with d(2) have "(k, queryValue q2 k) \<in> set q2"
          using queryValue_member [OF d(2)] by auto
        with assms(2) 2 show ?thesis by (auto simp: unambiguous_def)
      qed
    qed
    moreover have "joinStrings (p1 # map ?f1 ?ks1) [CHR ''?''] = joinStrings (p2 # map ?f2 ?ks2) [CHR ''?'']"
      using eq by (simp add: fullURL_parts)
    ultimately have parts: "p1 # map ?f1 ?ks1 = p2 # map ?f2 ?ks2"
      by (intro joinStrings_inject [where c = "CHR ''?''"]) simp_all
    then have p: "p1 = p2" and m: "map (\<lambda>k. k @ [CHR ''=''] @ queryValue q1 k) ?ks1 =
        map (\<lambda>k. k @ [CHR ''=''] @ queryValue q2 k) ?ks2"
      by simp_all
    have "\<forall>k\<in>set ?ks1. CHR ''='' \<notin> set k" "\<forall>k\<in>set ?ks2. CHR ''='' \<notin> set k"
      using assms(1,2) by (auto simp: unambiguous_def)
    note inj = params_inject [OF this m]
    have ks: "?ks1 = ?ks2"
      using inj by (rule conjunct1)
    have vals: "\<forall>k\<in>set ?ks1. queryValue q1 k = queryValue q2 k"
      using inj by (rule conjunct2)
    from ks have keys: "fst ` set q1 = fst ` set q2"
      by (metis set_map set_sort)
    have "set q1 = set q2"
    proof (rule set_eqI)
      fix kv :: "string \<times> string"
      obtain k v where kv: "kv = (k, v)" by (cases kv)
      have "(k, v) \<in> set q1 \<longleftrightarrow> k \<in> fst ` set q1 \<and> queryValue q1 k = v"
        by (rule queryValue_member [OF d(1)])
      also have "\<dots> \<longleftrightarrow> k \<in> fst ` set q2 \<and> queryValue q2 k = v"
        using keys vals by auto
      also have "\<dots> \<longleftrightarrow> (k, v) \<in> set q2"
        by (rule queryValue_member [OF d(2), symmetric])
      finally show "kv \<in> set q1 \<longleftrightarrow> kv \<in> set q2"
        by (simp add: kv)
    qed
    with p assms(3) show False by simp
  qed
  then show ?thesis
    by (auto simp: GenerateKey_def dest: injD)
qed

theorem fullURL_injective_without_separators_witness:
  "unambiguous ''/avatar/test'' [(''s'', ''80'')] \<and> unambiguous ''/avatar/test'' [(''s'', ''100'')] \<and>
   set [(''s'', ''80'')] \<noteq> set [(''s'', ''100'')] \<and> inj (\<lambda>s :: string. s) \<and>
   fullURL ''/avatar/test'' [(''s'', ''80'')] \<noteq> fullURL ''/avatar/test'' [(''s'', ''100'')] \<and>
   GenerateKey (\<lambda>s. s) ''/avatar/test'' [(''s'', ''80'')] \<noteq>
   GenerateKey (\<lambda>s. s) ''/avatar/test'' [(''s'', ''100'')]"
proof -
  have u1: "unambiguous ''/avatar/test'' [(''s'', ''80'')]"
    and u2: "unambiguous ''/avatar/test'' [(''s'', ''100'')]"
    by (simp_all add: unambiguous_def)
  have ne: "''/avatar/test'' \<noteq> ''/avatar/test'' \<or> set [(''s'', ''80'')] \<noteq> set [(''s'', ''100'')]"
    by simp
  have i: "inj (\<lambda>s :: string. s)"
    by (simp add: inj_def)
  show ?thesis
    using fullURL_injective_without_separators [OF u1 u2 ne, of "\<lambda>s. s"] u1 u2 i
    by simp
qed

text \<open>
  The claim as it was stated fails: the canonical string does not escape its
  separators. The path \<^verbatim>\<open>/avatar/x?s=80\<close> with no parameters and the path
  \<^verbatim>\<open>/avatar/x\<close> with the parameter \<^verbatim>\<open>s=80\<close> have the same canonical string, hence the
  same key under any digest.
\<close>

theorem fullURL_collision:
  "(''/avatar/x?s=80'', [] :: (string \<times> string) list) \<noteq> (''/avatar/x'', [(''s'', ''80'')]) \<and>
   fullURL ''/avatar/x?s=80'' [] = fullURL ''/avatar/x'' [(''s'', ''80'')] \<and>
   GenerateKey (\<lambda>s. s) ''/avatar/x?s=80'' [] = GenerateKey (\<lambda>s. s) ''/avatar/x'' [(''s'', ''80'')]"
  by (simp add: GenerateKey_def fullURL_def queryValue_def)

section \<open>Properties of the handler\<close>

text \<open>
  Claim C3. \<^verbatim>\<open>CheckConditional\<close> succeeds exactly when the index holds an entry for
  the key, the entry's age is within the TTL and the client's validators match the
  stored ones; and when it succeeds for a request that has passed access control with a
  non-empty hash, the handler answers 304 with no body, sends nothing upstream and
  leaves the index, the recency list, the total and the files as they were (it logs the
  request).
\<close>

theorem client_conditional_304:
  "(CheckConditional parse c now key req \<longleftrightarrow>
     (case index c key of
        None \<Rightarrow> False
      | Some entry \<Rightarrow> now - CreatedAt (Metadata entry) \<le> ttl c \<and> validatorsMatch parse entry req)) \<and>
   (rMethod r \<noteq> ''OPTIONS'' \<and> accessAllowed r \<and> rHash r \<noteq> [] \<and>
    CheckConditional (parseTime env) c (tCheck env) (cacheKeyOf env r) (header r) \<longrightarrow>
      ServeHTTP env c r =
        ((Returns \<lparr>rHeader = corsHeader r, wroteHeader = True, rStatus = 304,
                   rSent = corsHeader r, rInterim = [], rBody = [],
                   headRequest = (rMethod r = ''HEAD'')\<rparr>, []),
         LogRequest c) \<and>
      index (snd (ServeHTTP env c r)) = index c \<and>
      accessList (snd (ServeHTTP env c r)) = accessList c \<and>
      currentBytes (snd (ServeHTTP env c r)) = currentBytes c \<and>
      files (snd (ServeHTTP env c r)) = files c)"
  by (simp add: CheckConditional_iff ServeHTTP_def cacheKeyOf_def Let_def LogRequest_def logLine_def
        WriteHeader_def)

theorem client_conditional_304_witness:
  "rMethod req0 \<noteq> ''OPTIONS'' \<and> accessAllowed req0 \<and> rHash req0 \<noteq> [] \<and>
   CheckConditional (parseTime env0) store1 (tCheck env0) (cacheKeyOf env0 req0) (header req0) \<and>
   ServeHTTP env0 store1 req0 =
     ((Returns \<lparr>rHeader = Map.empty, wroteHeader = True, rStatus = 304, rSent = Map.empty,
                rInterim = [], rBody = [], headRequest = False\<rparr>, []),
      LogRequest store1)"
proof -
  have r: "rMethod req0 \<noteq> ''OPTIONS''" "accessAllowed req0" "rHash req0 \<noteq> []"
    "corsHeader req0 = Map.empty" "rMethod req0 \<noteq> ''HEAD''"
    by (simp_all add: req0_def)
  have "validatorsMatch (parseTime env0) entry1 (header req0)"
    by (simp add: validatorsMatch_def carries_def hdr_def entry1_def md0_def req0_def)
  moreover have "index store1 ''k1'' = Some entry1" "ttl store1 = 100"
    "CreatedAt (Metadata entry1) = 1000" "tCheck env0 = 1050"
    by (simp_all add: store1_eq entry1_def md0_def env0_def)
  ultimately have check:
    "CheckConditional (parseTime env0) store1 (tCheck env0) (cacheKeyOf env0 req0) (header req0)"
    using client_conditional_304 [where parse = "parseTime env0" and c = store1
        and now = "tCheck env0" and key = "cacheKeyOf env0 req0" and req = "header req0"]
    by (simp add: key0)
  show ?thesis
    using client_conditional_304 [where r = req0 and env = env0 and c = store1] r check
    by simp
qed




end
